theory Spec2Isabelle
  imports Complex_Main "HOL-Library.Char_ord" "HOL-Library.List_Lexorder"
begin

section \<open>Conventions of the embedding\<close>

text \<open>
  The development embeds the colour helpers, the unit-code parser, the age "domino" check,
  the scale rounding and the first steps of the consolidation of \<^verbatim>\<open>geomageddon.py\<close>.

  \<^item> A Python \<^verbatim>\<open>str\<close> is a \<^typ>\<open>string\<close>; one \<^typ>\<open>char\<close> stands for one code point
    below 256, so the accented letter of the era labels is the single character
    \<^term>\<open>CHR 0xF3\<close>.
  \<^item> In \<^verbatim>\<open>mix_weighted\<close> a Python \<^verbatim>\<open>float\<close> is a binary64 value and every operation
    rounds as IEEE 754 does. Elsewhere a \<^verbatim>\<open>float\<close> is a \<^typ>\<open>rat\<close> and arithmetic is exact:
    the two-colour blend is only evaluated at the weights 0, 1/2 and 1, where the floating
    point of the source is exact as well, and for the scale the model leaves rounding error,
    overflow and NaN out.
  \<^item> A raised exception is the left injection of a sum type.
\<close>

datatype error = ValueError | ZeroDivisionError | KeyError | OverflowError

section \<open>Characters and strings\<close>

definition ascii_upper :: string where
  "ascii_upper = ''ABCDEFGHIJKLMNOPQRSTUVWXYZ''"

definition ascii_lower :: string where
  "ascii_lower = ''abcdefghijklmnopqrstuvwxyz''"

definition ascii_digits :: string where
  "ascii_digits = ''0123456789''"

definition is_upper :: "char \<Rightarrow> bool" where
  "is_upper c = (c \<in> set ascii_upper)"

definition is_lower :: "char \<Rightarrow> bool" where
  "is_lower c = (c \<in> set ascii_lower)"

definition is_digit :: "char \<Rightarrow> bool" where
  "is_digit c = (c \<in> set ascii_digits)"

text \<open>\<^verbatim>\<open>str.upper\<close> and \<^verbatim>\<open>str.lower\<close> on the ASCII letters; other characters are kept.\<close>

definition upper_char :: "char \<Rightarrow> char" where
  "upper_char c = (case map_of (zip ascii_lower ascii_upper) c of Some u \<Rightarrow> u | None \<Rightarrow> c)"

definition lower_char :: "char \<Rightarrow> char" where
  "lower_char c = (case map_of (zip ascii_upper ascii_lower) c of Some l \<Rightarrow> l | None \<Rightarrow> c)"

definition upper :: "string \<Rightarrow> string" where
  "upper s = map upper_char s"

definition lower :: "string \<Rightarrow> string" where
  "lower s = map lower_char s"

text \<open>\<^verbatim>\<open>s.startswith(p)\<close>, \<^verbatim>\<open>s.endswith(p)\<close> and \<^verbatim>\<open>p in s\<close>.\<close>

definition startswith :: "string \<Rightarrow> string \<Rightarrow> bool" where
  "startswith s p = (take (length p) s = p)"

definition endswith :: "string \<Rightarrow> string \<Rightarrow> bool" where
  "endswith s p = (length p \<le> length s \<and> drop (length s - length p) s = p)"

fun contains :: "string \<Rightarrow> string \<Rightarrow> bool" where
  "contains [] p = (p = [])"
| "contains (c # cs) p = (startswith (c # cs) p \<or> contains cs p)"

text \<open>The white space that \<^verbatim>\<open>str.strip\<close> and \<^verbatim>\<open>int\<close> skip, among the code points below 256.\<close>

definition is_space :: "char \<Rightarrow> bool" where
  "is_space c = (c \<in> set [CHR 0x09, CHR 0x0A, CHR 0x0B, CHR 0x0C, CHR 0x0D, CHR 0x1C, CHR 0x1D,
                           CHR 0x1E, CHR 0x1F, CHR 0x20, CHR 0x85, CHR 0xA0])"

definition strip :: "string \<Rightarrow> string" where
  "strip s = rev (dropWhile is_space (rev (dropWhile is_space s)))"

section \<open>Numbers\<close>

text \<open>\<^verbatim>\<open>int(x)\<close> on a float truncates towards zero; \<^verbatim>\<open>round(x)\<close> rounds half to even.\<close>

definition py_int :: "rat \<Rightarrow> int" where
  "py_int x = (if 0 \<le> x then \<lfloor>x\<rfloor> else \<lceil>x\<rceil>)"

definition py_round :: "rat \<Rightarrow> int" where
  "py_round x =
     (let f = \<lfloor>x\<rfloor>; d = x - of_int f
      in if d < 1 / 2 then f else if 1 / 2 < d then f + 1 else if even f then f else f + 1)"

text \<open>
  \<^verbatim>\<open>int(s, 16)\<close>: white space around the literal is skipped, a sign and a \<^verbatim>\<open>0x\<close> prefix
  are optional, and single underscores may separate the digits.
\<close>

definition hexval :: "char \<Rightarrow> nat option" where
  "hexval c = map_of (zip ''0123456789abcdefABCDEF''
                 [0, 1, 2, 3, 4, 5, 6, 7, 8, 9, 10, 11, 12, 13, 14, 15, 10, 11, 12, 13, 14, 15]) c"

fun hex_digits :: "nat \<Rightarrow> string \<Rightarrow> nat option" where
  "hex_digits acc [] = Some acc"
| "hex_digits acc (c # cs) =
     (if c = CHR ''_'' then
        (case cs of
           [] \<Rightarrow> None
         | d # ds \<Rightarrow> (case hexval d of None \<Rightarrow> None | Some v \<Rightarrow> hex_digits (16 * acc + v) ds))
      else (case hexval c of None \<Rightarrow> None | Some v \<Rightarrow> hex_digits (16 * acc + v) cs))"

definition hex_literal :: "string \<Rightarrow> nat option" where
  "hex_literal s =
     (let t = (if startswith s ''0x'' \<or> startswith s ''0X'' then drop 2 s else s)
      in case t of
           [] \<Rightarrow> None
         | c # cs \<Rightarrow>
             if c = CHR ''_'' \<and> t = s then None else hex_digits 0 t)"

definition int16 :: "string \<Rightarrow> error + int" where
  "int16 s =
     (let t = strip s;
          neg = startswith t ''-'';
          u = (if neg \<or> startswith t ''+'' then drop 1 t else t)
      in case hex_literal u of
           None \<Rightarrow> Inl ValueError
         | Some n \<Rightarrow> Inr (if neg then - int n else int n))"

section \<open>Binary floating point\<close>

text \<open>
  A binary64 value is a rational number, an infinity or a NaN; the sign of zero is not
  kept, since nothing below can observe it. \<open>round_to_double\<close> rounds a rational to the
  nearest value with a significand of 53 bits, ties to even, with the subnormal spacing
  \<open>2\<^sup>-\<^sup>1\<^sup>0\<^sup>7\<^sup>4\<close> at the bottom and an infinity once the rounded magnitude reaches
  \<open>2\<^sup>1\<^sup>0\<^sup>2\<^sup>4\<close>. \<open>floor_log2\<close> counts binary digits as \<open>floor_log10\<close> counts decimal ones.
\<close>

datatype double = Finite rat | PInf | NInf | NaN

function ilog2 :: "int \<Rightarrow> nat" where
  "ilog2 m = (if m < 2 then 0 else Suc (ilog2 (m div 2)))"
  by pat_completeness auto
termination
  by (relation "measure nat") auto

definition floor_log2 :: "rat \<Rightarrow> int" where
  "floor_log2 x =
     (if 1 \<le> x then int (ilog2 \<lfloor>x\<rfloor>)
      else
        (let m = 1 / x; d = ilog2 \<lfloor>m\<rfloor>
         in if m = 2 ^ d then - int d else - int d - 1))"

definition pow2 :: "int \<Rightarrow> rat" where
  "pow2 k = 2 powi k"

definition round_to_double :: "rat \<Rightarrow> double" where
  "round_to_double x =
     (if x = 0 then Finite 0
      else
        (let e = max (floor_log2 \<bar>x\<bar> - 52) (- 1074);
             r = of_int (py_round (x / pow2 e)) * pow2 e
         in if 1024 \<le> floor_log2 \<bar>r\<bar> then (if 0 < x then PInf else NInf) else Finite r))"

text \<open>
  Addition, multiplication and division of two floats, the conversion \<^verbatim>\<open>float(w)\<close>, the
  comparisons with zero and \<^verbatim>\<open>int(round(x))\<close>. Dividing by zero raises; rounding a NaN or an
  infinity to an integer raises.
\<close>

definition float_sign :: "double \<Rightarrow> int" where
  "float_sign x =
     (case x of
        Finite r \<Rightarrow> (if 0 < r then 1 else if r < 0 then - 1 else 0)
      | PInf \<Rightarrow> 1
      | NInf \<Rightarrow> - 1
      | NaN \<Rightarrow> 0)"

fun float_add :: "double \<Rightarrow> double \<Rightarrow> double" where
  "float_add (Finite a) (Finite b) = round_to_double (a + b)"
| "float_add NaN y = NaN"
| "float_add x NaN = NaN"
| "float_add PInf NInf = NaN"
| "float_add NInf PInf = NaN"
| "float_add PInf y = PInf"
| "float_add x PInf = PInf"
| "float_add NInf y = NInf"
| "float_add x NInf = NInf"

fun float_mul :: "double \<Rightarrow> double \<Rightarrow> double" where
  "float_mul (Finite a) (Finite b) = round_to_double (a * b)"
| "float_mul NaN y = NaN"
| "float_mul x NaN = NaN"
| "float_mul x y =
     (let s = float_sign x * float_sign y
      in if s = 0 then NaN else if 0 < s then PInf else NInf)"

definition float_div :: "double \<Rightarrow> double \<Rightarrow> error + double" where
  "float_div x y =
     (case y of
        Finite b \<Rightarrow>
          if b = 0 then Inl ZeroDivisionError
          else
            (case x of
               Finite a \<Rightarrow> Inr (round_to_double (a / b))
             | NaN \<Rightarrow> Inr NaN
             | PInf \<Rightarrow> Inr (if 0 < b then PInf else NInf)
             | NInf \<Rightarrow> Inr (if 0 < b then NInf else PInf))
      | NaN \<Rightarrow> Inr NaN
      | _ \<Rightarrow> (case x of Finite a \<Rightarrow> Inr (Finite 0) | _ \<Rightarrow> Inr NaN))"

definition to_float :: "double \<Rightarrow> double" where
  "to_float w = (case w of Finite r \<Rightarrow> round_to_double r | _ \<Rightarrow> w)"

definition float_gt0 :: "double \<Rightarrow> bool" where
  "float_gt0 w = (case w of Finite r \<Rightarrow> 0 < r | PInf \<Rightarrow> True | _ \<Rightarrow> False)"

definition float_le0 :: "double \<Rightarrow> bool" where
  "float_le0 w = (case w of Finite r \<Rightarrow> r \<le> 0 | NInf \<Rightarrow> True | _ \<Rightarrow> False)"

definition round_float :: "double \<Rightarrow> error + int" where
  "round_float x =
     (case x of Finite r \<Rightarrow> Inr (py_round r) | NaN \<Rightarrow> Inl ValueError | _ \<Rightarrow> Inl OverflowError)"

text \<open>
  \<^verbatim>\<open>sum\<close> adds from left to right, starting from the integer 0. (CPython from 3.12 on adds a
  compensation term at the end; it is zero whenever the additions are exact and it rounds
  away when there are at most two summands, which covers what is proved below.)
\<close>

definition float_sum :: "double list \<Rightarrow> double" where
  "float_sum xs = foldl float_add (Finite 0) xs"

section \<open>Colour helpers\<close>

type_synonym rgb = "int \<times> int \<times> int"

text \<open>
  \<^verbatim>\<open>_hex_to_rgb\<close>: strip every leading \<^verbatim>\<open>#\<close>, then read the slices \<^verbatim>\<open>h[0:2]\<close>,
  \<^verbatim>\<open>h[2:4]\<close> and \<^verbatim>\<open>h[4:6]\<close> in base 16.
\<close>

definition slice2 :: "string \<Rightarrow> nat \<Rightarrow> string" where
  "slice2 h i = take 2 (drop i h)"

definition hex_to_rgb :: "string \<Rightarrow> error + rgb" where
  "hex_to_rgb hex_str =
     (let h = dropWhile (\<lambda>c. c = CHR ''#'') hex_str
      in case int16 (slice2 h 0) of
           Inl e \<Rightarrow> Inl e
         | Inr r \<Rightarrow>
             (case int16 (slice2 h 2) of
                Inl e \<Rightarrow> Inl e
              | Inr g \<Rightarrow>
                  (case int16 (slice2 h 4) of
                     Inl e \<Rightarrow> Inl e
                   | Inr b \<Rightarrow> Inr (r, g, b))))"

text \<open>
  \<^verbatim>\<open>_rgb_to_hex\<close>: every channel is clamped by \<^verbatim>\<open>max(0, min(255, v))\<close> and printed with
  \<^verbatim>\<open>{:02X}\<close>, which on a value from 0 to 255 is two upper-case hexadecimal digits.
\<close>

definition clamp255 :: "int \<Rightarrow> int" where
  "clamp255 v = max 0 (min 255 v)"

definition upper_hex :: string where
  "upper_hex = ''0123456789ABCDEF''"

definition hex_digit :: "nat \<Rightarrow> char" where
  "hex_digit n = upper_hex ! n"

definition fmt_02X :: "int \<Rightarrow> string" where
  "fmt_02X v = [hex_digit (nat v div 16), hex_digit (nat v mod 16)]"

definition rgb_to_hex :: "rgb \<Rightarrow> string" where
  "rgb_to_hex c =
     (case c of (r, g, b) \<Rightarrow>
        ''#'' @ fmt_02X (clamp255 r) @ fmt_02X (clamp255 g) @ fmt_02X (clamp255 b))"

text \<open>\<^verbatim>\<open>mix_two(c1, c2, a)\<close>: linear interpolation per channel; an empty colour is ignored.\<close>

definition mix_two :: "string \<Rightarrow> string \<Rightarrow> rat \<Rightarrow> error + string" where
  "mix_two c1 c2 a =
     (if c1 = [] \<and> c2 = [] then Inr []
      else if c1 = [] then Inr c2
      else if c2 = [] then Inr c1
      else
        (case hex_to_rgb c1 of
           Inl e \<Rightarrow> Inl e
         | Inr (r1, g1, b1) \<Rightarrow>
             (case hex_to_rgb c2 of
                Inl e \<Rightarrow> Inl e
              | Inr (r2, g2, b2) \<Rightarrow>
                  Inr (rgb_to_hex
                    (py_int ((1 - a) * of_int r1 + a * of_int r2),
                     py_int ((1 - a) * of_int g1 + a * of_int g2),
                     py_int ((1 - a) * of_int b1 + a * of_int b2))))))"

text \<open>\<^verbatim>\<open>mix_many(colors)\<close>: the mean of the non-empty colours, truncated per channel.\<close>

fun rgb_list :: "string list \<Rightarrow> error + rgb list" where
  "rgb_list [] = Inr []"
| "rgb_list (c # cs) =
     (case hex_to_rgb c of
        Inl e \<Rightarrow> Inl e
      | Inr x \<Rightarrow> (case rgb_list cs of Inl e \<Rightarrow> Inl e | Inr xs \<Rightarrow> Inr (x # xs)))"

definition mix_many :: "string list \<Rightarrow> error + string" where
  "mix_many colors =
     (let cols = filter (\<lambda>c. c \<noteq> []) colors
      in if cols = [] then Inr []
         else
           (case rgb_list cols of
              Inl e \<Rightarrow> Inl e
            | Inr xs \<Rightarrow>
                Inr (rgb_to_hex
                  (py_int (of_int (sum_list (map fst xs)) / of_nat (length xs)),
                   py_int (of_int (sum_list (map (fst \<circ> snd) xs)) / of_nat (length xs)),
                   py_int (of_int (sum_list (map (snd \<circ> snd) xs)) / of_nat (length xs))))))"

text \<open>
  \<^verbatim>\<open>jitter(hex_color, k, dh, dl)\<close>: the shift in HLS space is computed by \<^verbatim>\<open>colorsys\<close> on
  floats; it is the parameter \<open>hls\<close>, which maps the channels read from the colour, the
  index and the two amplitudes to the three integers handed to \<^verbatim>\<open>_rgb_to_hex\<close>, or raises.
\<close>

type_synonym hls_shift = "rgb \<Rightarrow> nat \<Rightarrow> rat \<Rightarrow> rat \<Rightarrow> error + rgb"

definition jitter :: "hls_shift \<Rightarrow> string \<Rightarrow> nat \<Rightarrow> rat \<Rightarrow> rat \<Rightarrow> error + string" where
  "jitter hls hex_color k dh dl =
     (if hex_color = [] then Inr []
      else
        (case hex_to_rgb hex_color of
           Inl e \<Rightarrow> Inl e
         | Inr c \<Rightarrow> (case hls c k dh dl of Inl e \<Rightarrow> Inl e | Inr c' \<Rightarrow> Inr (rgb_to_hex c'))))"

text \<open>
  \<^verbatim>\<open>mix_weighted(colors, weights)\<close>: the pairs with a non-empty colour and a positive weight
  are kept; each channel is the sum of the channel values times the weights, divided by
  the sum of the weights, then rounded and clamped. All of it is float arithmetic; the
  channel values are integers of at most three digits, which convert exactly.
\<close>

fun weighted_sum :: "(rgb \<Rightarrow> int) \<Rightarrow> double \<Rightarrow> (string \<times> double) list \<Rightarrow> error + double" where
  "weighted_sum ch acc [] = Inr acc"
| "weighted_sum ch acc ((c, w) # ps) =
     (case hex_to_rgb c of
        Inl e \<Rightarrow> Inl e
      | Inr x \<Rightarrow> weighted_sum ch (float_add acc (float_mul (Finite (of_int (ch x))) w)) ps)"

definition channel_mean ::
  "(rgb \<Rightarrow> int) \<Rightarrow> (string \<times> double) list \<Rightarrow> double \<Rightarrow> error + double" where
  "channel_mean ch pairs sw =
     (case weighted_sum ch (Finite 0) pairs of Inl e \<Rightarrow> Inl e | Inr t \<Rightarrow> float_div t sw)"

definition mix_weighted :: "string list \<Rightarrow> double list \<Rightarrow> error + string" where
  "mix_weighted colors weights =
     (let pairs = filter (\<lambda>(c, w). c \<noteq> [] \<and> float_gt0 w) (zip colors (map to_float weights))
      in if pairs = [] then Inr []
         else
           (let sw = float_sum (map snd pairs)
            in if float_le0 sw then Inr []
               else
                 (case channel_mean fst pairs sw of
                    Inl e \<Rightarrow> Inl e
                  | Inr R \<Rightarrow>
                      (case channel_mean (fst \<circ> snd) pairs sw of
                         Inl e \<Rightarrow> Inl e
                       | Inr G \<Rightarrow>
                           (case channel_mean (snd \<circ> snd) pairs sw of
                              Inl e \<Rightarrow> Inl e
                            | Inr B \<Rightarrow>
                                (case round_float R of
                                   Inl e \<Rightarrow> Inl e
                                 | Inr r \<Rightarrow>
                                     (case round_float G of
                                        Inl e \<Rightarrow> Inl e
                                      | Inr g \<Rightarrow>
                                          (case round_float B of
                                             Inl e \<Rightarrow> Inl e
                                           | Inr b \<Rightarrow> Inr (rgb_to_hex (r, g, b))))))))))"

text \<open>The canonical form of a colour: \<^verbatim>\<open>#\<close> and six upper-case hexadecimal digits.\<close>

definition canonical_hex :: "string \<Rightarrow> bool" where
  "canonical_hex s =
     (length s = 7 \<and> hd s = CHR ''#'' \<and> (\<forall>c \<in> set (tl s). c \<in> set upper_hex))"

definition channels_in_range :: "string \<Rightarrow> bool" where
  "channels_in_range s =
     (case hex_to_rgb s of
        Inl e \<Rightarrow> False
      | Inr (r, g, b) \<Rightarrow> 0 \<le> r \<and> r \<le> 255 \<and> 0 \<le> g \<and> g \<le> 255 \<and> 0 \<le> b \<and> b \<le> 255)"

section \<open>The unit-code parser\<close>

text \<open>The two settings of \<^verbatim>\<open>GeoSiglaStyler\<close> that the parser reads.\<close>

record styler =
  stem_len :: int
  ignore_allcaps :: "string list"

text \<open>
  \<^verbatim>\<open>_extract_idade_code\<close>: the match of \<^verbatim>\<open>^([A-Z0-9_]+)\<close> is the longest leading run of
  upper-case letters, digits and underscores; \<^verbatim>\<open>CORTADO_\<close> is appended when the run ends in
  \<^verbatim>\<open>C_\<close> and the rest starts with \<^verbatim>\<open>cortado_\<close> in any case.
\<close>

definition is_code_char :: "char \<Rightarrow> bool" where
  "is_code_char c = (is_upper c \<or> is_digit c \<or> c = CHR ''_'')"

definition extract_idade_code :: "string \<Rightarrow> string" where
  "extract_idade_code s =
     (let base = takeWhile is_code_char s;
          rest = drop (length base) s
      in if endswith base ''C_'' \<and> startswith (lower rest) ''cortado_''
         then base @ ''CORTADO_'' else base)"

text \<open>\<^verbatim>\<open>re.split(r"_+", rest)\<close> without the empty pieces.\<close>

fun split_underscores :: "string \<Rightarrow> string \<Rightarrow> string list" where
  "split_underscores cur [] = (if cur = [] then [] else [cur])"
| "split_underscores cur (c # cs) =
     (if c = CHR ''_'' then (if cur = [] then [] else [cur]) @ split_underscores [] cs
      else split_underscores (cur @ [c]) cs)"

definition tokenize_rest :: "string \<Rightarrow> string \<Rightarrow> string list" where
  "tokenize_rest sigla idade_code =
     (let rest = dropWhile (\<lambda>c. c = CHR ''_'') (drop (length idade_code) sigla)
      in if rest = [] then [] else split_underscores [] rest)"

definition GREEK :: "(string \<times> string) list" where
  "GREEK = [(''ALFA'', ''alfa''), (''ALPHA'', ''alfa''), (''BETA'', ''beta''), (''GAMMA'', ''gamma''),
            (''GAMA'', ''gamma''), (''DELTA'', ''delta''), (''LAMBDA'', ''lambda''), (''MU'', ''mu'')]"

definition norm_greek :: "string \<Rightarrow> string option" where
  "norm_greek tok = map_of GREEK (upper (filter (\<lambda>c. is_upper c \<or> is_lower c) tok))"

text \<open>A slice \<^verbatim>\<open>x[:n]\<close>; a negative \<open>n\<close> counts from the end.\<close>

definition slice_to :: "string \<Rightarrow> int \<Rightarrow> string" where
  "slice_to x n = (if 0 \<le> n then take (nat n) x else take (length x - nat (- n)) x)"

definition strip_underscores :: "string \<Rightarrow> string" where
  "strip_underscores tok =
     rev (dropWhile (\<lambda>c. c = CHR ''_'') (rev (dropWhile (\<lambda>c. c = CHR ''_'') tok)))"

definition letters_stem :: "styler \<Rightarrow> string \<Rightarrow> string option" where
  "letters_stem self tok =
     (let t = dropWhile is_digit (strip_underscores tok);
          m = takeWhile is_lower t
      in if m = [] then None else Some (slice_to m (stem_len self)))"

text \<open>
  The loop of \<^verbatim>\<open>_parse_sigla\<close> over the tokens, with the Greek token and the stem found so
  far; \<^verbatim>\<open>continue\<close> and \<^verbatim>\<open>break\<close> are the recursive call and the return.
\<close>

definition truthy :: "string option \<Rightarrow> bool" where
  "truthy x = (case x of None \<Rightarrow> False | Some v \<Rightarrow> v \<noteq> [])"

definition fullmatch_allcaps :: "string \<Rightarrow> bool" where
  "fullmatch_allcaps t = (t \<noteq> [] \<and> list_all (\<lambda>c. is_upper c \<or> is_digit c) t)"

fun scan_tokens ::
  "styler \<Rightarrow> string list \<Rightarrow> string option \<Rightarrow> string option \<Rightarrow> string option \<times> string option"
where
  "scan_tokens self [] greek stem = (greek, stem)"
| "scan_tokens self (t # toks) greek stem =
     (if fullmatch_allcaps t \<and> t \<in> set (ignore_allcaps self) then scan_tokens self toks greek stem
      else if greek = None \<and> truthy (norm_greek t) then scan_tokens self toks (norm_greek t) stem
      else
        (let stem' = (if stem = None \<and> truthy (letters_stem self t) then letters_stem self t
                      else stem)
         in if truthy greek \<and> truthy stem' then (greek, stem')
            else scan_tokens self toks greek stem'))"

definition or_empty :: "string option \<Rightarrow> string" where
  "or_empty x = (case x of None \<Rightarrow> [] | Some v \<Rightarrow> v)"

definition parse_sigla :: "styler \<Rightarrow> string \<Rightarrow> string \<times> string \<times> string \<times> string" where
  "parse_sigla self s =
     (let idade = extract_idade_code s;
          toks = tokenize_rest s idade;
          (greek, stem) = scan_tokens self toks None None;
          coarse = (if truthy greek then idade @ ''|'' @ or_empty greek
                    else if truthy stem then idade @ ''|'' @ or_empty stem
                    else idade)
      in (idade, or_empty greek, or_empty stem, coarse))"

section \<open>The age domino\<close>

definition Pre_cambriano :: string where
  "Pre_cambriano = ''Pre-cambriano''"

definition Paleozoico :: string where
  "Paleozoico = ''Paleoz'' @ [CHR 0xF3] @ ''ico''"

definition Mesozoico :: string where
  "Mesozoico = ''Mesoz'' @ [CHR 0xF3] @ ''ico''"

definition Cenozoico :: string where
  "Cenozoico = ''Cenoz'' @ [CHR 0xF3] @ ''ico''"

definition Fanerozoico :: string where
  "Fanerozoico = ''Faneroz'' @ [CHR 0xF3] @ ''ico''"

text \<open>
  \<^verbatim>\<open>_macro_from_idade_code_simple\<close>. A negative look-ahead \<^verbatim>\<open>P(?!P)\<close> is "starts with P
  and not with PP"; the age code is made of ASCII characters, so \<^verbatim>\<open>upper\<close> is the ASCII one.
\<close>

definition macro_from_idade_code_simple :: "string \<Rightarrow> string" where
  "macro_from_idade_code_simple idade_code =
     (let ic = upper idade_code
      in if contains ic ''C_CORTADO'' then Paleozoico
         else if startswith ic ''A'' \<or> startswith ic ''PP'' \<or> startswith ic ''MP''
                 \<or> startswith ic ''NP'' then Pre_cambriano
         else if startswith ic ''J'' \<or> startswith ic ''K'' \<or> startswith ic ''T''
                 \<or> startswith ic ''JK'' then Mesozoico
         else if startswith ic ''Q'' \<or> startswith ic ''N'' \<or> startswith ic ''PG''
                 \<or> startswith ic ''PL'' \<or> startswith ic ''PE'' \<or> startswith ic ''E'' then Cenozoico
         else if (startswith ic ''P'' \<and> \<not> startswith ic ''PP'') \<or> startswith ic ''D''
                 \<or> (startswith ic ''C'' \<and> \<not> startswith ic ''CC'') \<or> startswith ic ''S''
                 \<or> startswith ic ''O'' \<or> startswith ic ''CM'' then Paleozoico
         else [])"

text \<open>
  \<^verbatim>\<open>_choose_minmax\<close>. A field is \<open>None\<close> or a text; \<open>unaccent_upper\<close> stands for the removal of the
  combining marks of the NFD form followed by \<^verbatim>\<open>upper\<close>, which \<^verbatim>\<open>unicodedata\<close> computes.
\<close>

definition norm_in :: "(string \<Rightarrow> string) \<Rightarrow> string list \<Rightarrow> string option \<Rightarrow> string option" where
  "norm_in unaccent_upper domain x =
     (case x of
        None \<Rightarrow> None
      | Some v \<Rightarrow>
          (let s = strip v
           in if s = [] then None
              else if unaccent_upper s \<in> set domain then Some (unaccent_upper s) else None))"

definition choose_minmax ::
  "(string \<Rightarrow> string) \<Rightarrow> string option \<Rightarrow> string option \<Rightarrow> string list
     \<Rightarrow> string option \<times> string option"
where
  "choose_minmax unaccent_upper vmin vmax domain =
     (let m = norm_in unaccent_upper domain vmin; M = norm_in unaccent_upper domain vmax
      in if m = None \<and> M = None then (None, None)
         else ((if m = None then M else m), (if M = None then (if m = None then M else m) else M)))"

definition EON :: "string list" where
  "EON = [''ARQUEANO'', ''PROTEROZOICO'', ''FANEROZOICO'']"

definition ERA :: "string list" where
  "ERA = [''PALEOZOICO'', ''MESOZOICO'', ''CENOZOICO'']"

definition eon_dom :: "string option \<Rightarrow> string option \<Rightarrow> string" where
  "eon_dom a b =
     (let pre = [Some ''ARQUEANO'', Some ''PROTEROZOICO'']
      in if a = None \<and> b = None then Fanerozoico
         else if a \<in> set pre \<and> b \<in> set pre then Pre_cambriano
         else if a \<in> set pre \<and> b = Some ''FANEROZOICO'' then Pre_cambriano @ ''|'' @ Paleozoico
         else if a = Some ''FANEROZOICO'' \<and> b = Some ''FANEROZOICO'' then Fanerozoico
         else if a = Some ''FANEROZOICO'' \<or> b = Some ''FANEROZOICO'' then Fanerozoico
         else Pre_cambriano)"

definition era_label :: "string option \<Rightarrow> string option \<Rightarrow> string" where
  "era_label m M =
     (if m = None \<and> M = None then []
      else if m = Some ''PALEOZOICO'' \<and> M = Some ''PALEOZOICO'' then Paleozoico
      else if m = Some ''PALEOZOICO'' \<and> M = Some ''MESOZOICO'' then Paleozoico @ ''|'' @ Mesozoico
      else if m = Some ''MESOZOICO'' \<and> M = Some ''MESOZOICO'' then Mesozoico
      else if m = Some ''MESOZOICO'' \<and> M = Some ''CENOZOICO'' then Mesozoico @ ''|'' @ Cenozoico
      else if m = Some ''CENOZOICO'' \<and> M = Some ''CENOZOICO'' then Cenozoico
      else if m = M then
        (case map_of [(Some ''PALEOZOICO'', Paleozoico), (Some ''MESOZOICO'', Mesozoico),
                      (Some ''CENOZOICO'', Cenozoico)] m of
           Some l \<Rightarrow> l
         | None \<Rightarrow> [])
      else [])"

definition has_np :: "string \<Rightarrow> bool" where
  "has_np ic = contains ic ''NP''"

text \<open>
  \<^verbatim>\<open>has_perm\<close> searches \<^verbatim>\<open>(^|[^A-Z])P(?![A-Z])\<close> and \<^verbatim>\<open>(^|[^A-Z])P[0-9]\<close>: a \<^verbatim>\<open>P\<close> at
  the start or after a character that is no upper-case letter, and a condition on what
  follows it.
\<close>

fun search_P :: "(string \<Rightarrow> bool) \<Rightarrow> char option \<Rightarrow> string \<Rightarrow> bool" where
  "search_P follow prev [] = False"
| "search_P follow prev (c # cs) =
     ((c = CHR ''P'' \<and> (case prev of None \<Rightarrow> True | Some p \<Rightarrow> \<not> is_upper p) \<and> follow cs)
      \<or> search_P follow (Some c) cs)"

definition has_perm :: "string \<Rightarrow> bool" where
  "has_perm ic =
     (search_P (\<lambda>cs. case cs of [] \<Rightarrow> True | d # _ \<Rightarrow> \<not> is_upper d) None ic
      \<or> search_P (\<lambda>cs. case cs of [] \<Rightarrow> False | d # _ \<Rightarrow> is_digit d) None ic)"

definition has_k :: "string \<Rightarrow> bool" where
  "has_k ic = (contains ic ''K'' \<or> contains ic ''JK'')"

definition macro_era_of :: "string \<Rightarrow> string \<Rightarrow> string \<Rightarrow> string" where
  "macro_era_of ed er ic =
     (if ed = Pre_cambriano then Pre_cambriano
      else if ed = Pre_cambriano @ ''|'' @ Paleozoico then
        (if has_np ic then Pre_cambriano else Paleozoico)
      else if ed = Fanerozoico then
        (if er \<in> set [Paleozoico, Mesozoico, Cenozoico, []] then er
         else if er = Paleozoico @ ''|'' @ Mesozoico then
           (if has_perm ic then Paleozoico else Mesozoico)
         else if er = Mesozoico @ ''|'' @ Cenozoico then
           (if has_k ic then Mesozoico else Cenozoico)
         else [])
      else [])"

definition macro_eras :: "string list" where
  "macro_eras = [Pre_cambriano, Paleozoico, Mesozoico, Cenozoico]"

definition allowed_set :: "string \<Rightarrow> string set" where
  "allowed_set macro_era = (if macro_era \<in> set macro_eras then {macro_era} else set macro_eras)"

definition domino_ok_of :: "string \<Rightarrow> string \<Rightarrow> int" where
  "domino_ok_of ic me =
     (let se = macro_from_idade_code_simple ic
      in if se \<in> allowed_set me \<or> se = [] then 1 else 0)"

text \<open>
  One row of \<^verbatim>\<open>classify\<close>, up to the masking of inconsistent rows. The later steps (the
  merge by name, the collapse of the Cenozoic) rewrite \<open>coarse_grp\<close> only.
\<close>

record feature =
  sigla :: string
  eon_min :: "string option"
  eon_max :: "string option"
  era_min :: "string option"
  era_max :: "string option"

record classified =
  idade_code :: string
  greek :: string
  stem :: string
  coarse_grp :: string
  sigla_era :: string
  eon_domino :: string
  macro_era :: string
  domino_ok :: int

definition classify :: "styler \<Rightarrow> (string \<Rightarrow> string) \<Rightarrow> string \<Rightarrow> feature \<Rightarrow> classified" where
  "classify self unaccent_upper enforce_mode f =
     (let (idade, gr, st, coarse) = parse_sigla self (sigla f);
          (eon_m, eon_M) = choose_minmax unaccent_upper (eon_min f) (eon_max f) EON;
          ed = eon_dom eon_m eon_M;
          (era_m, era_M) = choose_minmax unaccent_upper (era_min f) (era_max f) ERA;
          er = era_label era_m era_M;
          me = macro_era_of ed er (upper idade);
          ok = domino_ok_of idade me
      in \<lparr>idade_code = idade, greek = gr, stem = st,
          coarse_grp = (if enforce_mode = ''mask'' \<and> ok = 0 then [] else coarse),
          sigla_era = macro_from_idade_code_simple idade,
          eon_domino = ed, macro_era = me, domino_ok = ok\<rparr>)"

section \<open>The scale of the figure\<close>

text \<open>
  \<^verbatim>\<open>_round_nice\<close>. \<^verbatim>\<open>math.floor(math.log10(n))\<close> is computed by counting the digits of the
  integer part (of \<open>n\<close>, or of \<open>1 / n\<close> below one); \<^verbatim>\<open>10 ** k\<close> is a power with an integer
  exponent.
\<close>

function ilog10 :: "int \<Rightarrow> nat" where
  "ilog10 m = (if m < 10 then 0 else Suc (ilog10 (m div 10)))"
  by pat_completeness auto
termination
  by (relation "measure nat") auto

definition floor_log10 :: "rat \<Rightarrow> int" where
  "floor_log10 n =
     (if 1 \<le> n then int (ilog10 \<lfloor>n\<rfloor>)
      else
        (let m = 1 / n; d = ilog10 \<lfloor>m\<rfloor>
         in if m = 10 ^ d then - int d else - int d - 1))"

definition pow10 :: "int \<Rightarrow> rat" where
  "pow10 k = 10 powi k"

definition steps :: "rat list" where
  "steps = [1, 2, 5 / 2, 5, 10]"

fun nearest_loop :: "rat \<Rightarrow> int \<Rightarrow> rat list \<Rightarrow> (rat \<times> rat) option \<Rightarrow> (rat \<times> rat) option" where
  "nearest_loop n k [] best = best"
| "nearest_loop n k (s # ss) best =
     (let val = s * pow10 k; err = \<bar>val - n\<bar>
      in nearest_loop n k ss
           (case best of
              None \<Rightarrow> Some (val, err)
            | Some (best_val, best_err) \<Rightarrow>
                if err < best_err then Some (val, err) else Some (best_val, best_err)))"

definition round_nice :: "rat \<Rightarrow> string \<Rightarrow> int" where
  "round_nice n mode =
     (if n \<le> 0 then 1
      else
        (let k = floor_log10 n
         in if mode = ''ceil'' then
              (case find (\<lambda>s. n \<le> s * pow10 k) steps of
                 Some s \<Rightarrow> \<lceil>s * pow10 k\<rceil>
               | None \<Rightarrow> py_int (pow10 (k + 1)))
            else
              (case nearest_loop n k (steps @ [10]) None of
                 Some (best_val, best_err) \<Rightarrow> py_round best_val
               | None \<Rightarrow> 1)))"

text \<open>
  What the scale computation reads of a layer and of \<^verbatim>\<open>geopandas\<close>: whether the frame is
  empty, the number of rows with a geometry, the reference frame, the width of the bounds
  and the areas in the layer's own units. The reprojection is the environment \<open>gis\<close>: the
  width and the areas of the layer in a target frame, or the exception raised.
  A layer without a reference frame cannot be reprojected: \<^verbatim>\<open>to_crs\<close> raises.
\<close>

record crs =
  crs_name :: string
  is_geographic :: bool
  is_projected :: bool

record layer =
  empty :: bool
  n_geoms :: nat
  layer_crs :: "crs option"
  width_native :: rat
  areas_native :: "rat list"

record gis =
  laea :: "layer \<Rightarrow> string"
  proj_width :: "layer \<Rightarrow> string \<Rightarrow> error + rat"
  proj_areas :: "layer \<Rightarrow> string \<Rightarrow> error + rat list"

definition to_crs_width :: "gis \<Rightarrow> layer \<Rightarrow> string \<Rightarrow> error + rat" where
  "to_crs_width env g target =
     (if layer_crs g = None then Inl ValueError else proj_width env g target)"

definition to_crs_areas :: "gis \<Rightarrow> layer \<Rightarrow> string \<Rightarrow> error + rat list" where
  "to_crs_areas env g target =
     (if layer_crs g = None then Inl ValueError else proj_areas env g target)"

record scale_config =
  fig_width :: rat
  width_unit :: string
  dpi :: "int option"
  margin :: rat
  margin_unit :: string
  scale_round_to :: "string option"
  scale_round_mode :: string
  area_crs :: "string option"

datatype strategy = User_crs | Projected_native | Auto_laea | Fallback error | Geographic_constant

definition to_mm :: "int option \<Rightarrow> rat \<Rightarrow> string \<Rightarrow> error + rat" where
  "to_mm dpi_opt v unit =
     (let u = lower unit
      in if u \<in> set [''mm'', ''millimeter'', ''millimeters''] then Inr v
         else if u \<in> set [''cm'', ''centimeter'', ''centimeters''] then Inr (v * 10)
         else if u \<in> set [''in'', ''inch'', ''inches''] then Inr (v * (254 / 10))
         else if u \<in> set [''px'', ''pixel'', ''pixels''] then
           (case dpi_opt of
              None \<Rightarrow> Inl ValueError
            | Some d \<Rightarrow> if d \<le> 0 then Inl ValueError else Inr (v * (254 / 10) / of_int d))
         else Inl ValueError)"

text \<open>
  The measure of the ground width in \<^verbatim>\<open>width_to_scale\<close>: the constant of degrees per
  metre when the caller opts out of the projection on a geographic layer; otherwise the
  user's frame, the native projected frame or an azimuthal frame built on the centroid. An
  exception in that block is caught and the native bounds are measured. Widths are exact
  numbers, so the test of \<^verbatim>\<open>width_to_scale\<close> for a non-finite width has no counterpart.
\<close>

definition measure_width :: "scale_config \<Rightarrow> gis \<Rightarrow> bool \<Rightarrow> layer \<Rightarrow> rat \<times> strategy" where
  "measure_width self env prefer_area_crs g =
     (let geographic = (case layer_crs g of None \<Rightarrow> False | Some c \<Rightarrow> is_geographic c)
      in if \<not> prefer_area_crs \<and> geographic then (width_native g * 108000, Geographic_constant)
         else if prefer_area_crs \<and> truthy (area_crs self) then
           (case to_crs_width env g (or_empty (area_crs self)) of
              Inr w \<Rightarrow> (w, User_crs)
            | Inl e \<Rightarrow> (width_native g, Fallback e))
         else if (case layer_crs g of None \<Rightarrow> False | Some c \<Rightarrow> is_projected c) then
           (width_native g, Projected_native)
         else
           (case to_crs_width env g (laea env g) of
              Inr w \<Rightarrow> (w, Auto_laea)
            | Inl e \<Rightarrow> (width_native g, Fallback e)))"

definition width_to_scale ::
  "scale_config \<Rightarrow> gis \<Rightarrow> bool \<Rightarrow> layer option \<Rightarrow> error + int \<times> strategy"
where
  "width_to_scale self env prefer_area_crs gdf =
     (case gdf of
        None \<Rightarrow> Inl ValueError
      | Some g \<Rightarrow>
          if empty g then Inl ValueError
          else if n_geoms g = 0 then Inl ValueError
          else
            (case to_mm (dpi self) (fig_width self) (width_unit self) of
               Inl e \<Rightarrow> Inl e
             | Inr paper_w_mm \<Rightarrow>
                 (case (if margin self \<noteq> 0 then to_mm (dpi self) (margin self) (margin_unit self)
                        else Inr 0) of
                    Inl e \<Rightarrow> Inl e
                  | Inr margin_mm \<Rightarrow>
                      (let content_w_mm = max (paper_w_mm - 2 * margin_mm) (1 / 1000000);
                           content_w_m = content_w_mm / 1000;
                           (map_w_m, strat) = measure_width self env prefer_area_crs g
                       in if map_w_m \<le> 0 then Inl ValueError
                          else
                            (let scale_exact = map_w_m / content_w_m
                             in Inr (if scale_round_to self = Some ''nice''
                                     then round_nice scale_exact (scale_round_mode self)
                                     else py_int scale_exact,
                                     strat))))))"

section \<open>The threshold of the consolidation\<close>

text \<open>\<^verbatim>\<open>_area_series\<close>: the areas and the name of the strategy that measured them.\<close>

definition area_series :: "scale_config \<Rightarrow> gis \<Rightarrow> layer \<Rightarrow> rat list \<times> string" where
  "area_series self env g =
     (let ones = replicate (n_geoms g) 1
      in if truthy (area_crs self) then
           (case to_crs_areas env g (or_empty (area_crs self)) of
              Inr a \<Rightarrow> (a, ''user_crs'')
            | Inl e \<Rightarrow> (ones, ''fallback_equal_weights''))
         else
           (case layer_crs g of
              Some c \<Rightarrow>
                if is_projected c then (areas_native g, ''projected_native'')
                else
                  (case to_crs_areas env g (laea env g) of
                     Inr a \<Rightarrow> (a, ''auto_laea'')
                   | Inl e \<Rightarrow> (ones, ''fallback_equal_weights''))
            | None \<Rightarrow> (ones, ''no_crs_equal_weights'')))"

text \<open>
  \<^verbatim>\<open>cull_small_parts_by_scale\<close> up to the partition of its step 3: the scale, the threshold,
  the check of the strategy, and the indices of the small and of the large parts that the
  merging steps receive. The minimum area is the keyword argument \<^verbatim>\<open>min_area_mm2\<close> of the
  method (1.0 by default); the attribute of the same name that the constructor stores is
  not read here.
\<close>

record partition =
  scale_N :: int
  area_thresh_m2 :: rat
  small_idx :: "nat list"
  big_idx :: "nat list"

definition cull_small_parts_by_scale ::
  "scale_config \<Rightarrow> gis \<Rightarrow> layer option \<Rightarrow> rat \<Rightarrow> error + partition"
where
  "cull_small_parts_by_scale self env gdf min_area_mm2 =
     (case width_to_scale self env True gdf of
        Inl e \<Rightarrow> Inl e
      | Inr (N, strat_w) \<Rightarrow>
          (case gdf of
             None \<Rightarrow> Inl ValueError
           | Some g \<Rightarrow>
               if empty g then Inl ValueError
               else
                 (let thresh = (of_int N * (1 / 1000)) ^ 2 * min_area_mm2;
                      (area_s, strat) = area_series self env g
                  in if startswith strat ''no_crs'' \<or> startswith strat ''fallback''
                     then Inl ValueError
                     else Inr \<lparr>scale_N = N, area_thresh_m2 = thresh,
                               small_idx = filter (\<lambda>i. area_s ! i < thresh) [0 ..< length area_s],
                               big_idx = filter (\<lambda>i. thresh \<le> area_s ! i) [0 ..< length area_s]\<rparr>)))"

section \<open>The resolution of colour collisions\<close>

text \<open>
  The colour map of \<^verbatim>\<open>_build_color_map_for_coarse\<close> is a dictionary in insertion order: an
  association list from the group to its colours. The three rounds read and write the
  entries below.
\<close>

record colours =
  grp_color :: string
  idade_color :: string
  roc_colors :: string
  r1_colors :: string
  qml_colors :: string

type_synonym cmap = "(string \<times> colours) list"

text \<open>\<^verbatim>\<open>inv.setdefault(c, []).append(gk)\<close> on a dictionary in insertion order.\<close>

fun setdefault_append ::
  "(string \<times> string list) list \<Rightarrow> string \<Rightarrow> string \<Rightarrow> (string \<times> string list) list"
where
  "setdefault_append [] c gk = [(c, [gk])]"
| "setdefault_append ((c', v) # inv_map) c gk =
     (if c' = c then (c', v @ [gk]) # inv_map else (c', v) # setdefault_append inv_map c gk)"

definition dup_sets :: "cmap \<Rightarrow> string list list" where
  "dup_sets cm =
     map snd (filter (\<lambda>(c, v). 1 < length v)
       (foldl (\<lambda>inv_map (gk, d). setdefault_append inv_map (grp_color d) gk) [] cm))"

text \<open>The number of groups that share their colour with another group.\<close>

definition collision_count :: "cmap \<Rightarrow> nat" where
  "collision_count cm = length (concat (dup_sets cm))"

text \<open>\<^verbatim>\<open>cmap[grp]\<close> and \<^verbatim>\<open>cmap[grp]["grp_color"] = c\<close>.\<close>

definition get_entry :: "cmap \<Rightarrow> string \<Rightarrow> error + colours" where
  "get_entry cm grp = (case map_of cm grp of None \<Rightarrow> Inl KeyError | Some d \<Rightarrow> Inr d)"

fun set_grp_color :: "cmap \<Rightarrow> string \<Rightarrow> string \<Rightarrow> cmap" where
  "set_grp_color [] grp c = []"
| "set_grp_color ((k, d) # cm) grp c =
     (if k = grp then (k, d\<lparr>grp_color := c\<rparr>) # cm else (k, d) # set_grp_color cm grp c)"

text \<open>
  A loop over groups that rewrites one colour at each step and stops at an exception; a
  step of the source that assigns nothing writes back the colour it read.
\<close>

fun for_groups ::
  "(cmap \<Rightarrow> 'a \<Rightarrow> error + string \<times> string) \<Rightarrow> 'a list \<Rightarrow> cmap \<Rightarrow> error + cmap"
where
  "for_groups body [] cm = Inr cm"
| "for_groups body (x # xs) cm =
     (case body cm x of
        Inl e \<Rightarrow> Inl e
      | Inr (grp, c) \<Rightarrow> for_groups body xs (set_grp_color cm grp c))"

definition DEFAULT_GRAY :: string where
  "DEFAULT_GRAY = ''#DDDDDD''"

definition or_else :: "string \<Rightarrow> string \<Rightarrow> string" where
  "or_else a b = (if a \<noteq> [] then a else b)"

text \<open>Round A: the age colour and the lithology mix, for the groups of a collision set.\<close>

definition round_A_body :: "cmap \<Rightarrow> string \<Rightarrow> error + string \<times> string" where
  "round_A_body cm grp =
     (case get_entry cm grp of
        Inl e \<Rightarrow> Inl e
      | Inr d \<Rightarrow>
          (let roc = roc_colors d; ida = idade_color d
           in if roc \<noteq> [] then
                (case mix_two (or_else ida roc) roc (1 / 2) of
                   Inl e \<Rightarrow> Inl e
                 | Inr c \<Rightarrow> Inr (grp, c))
              else Inr (grp, grp_color d)))"

definition round_A :: "cmap \<Rightarrow> error + cmap" where
  "round_A cm = for_groups round_A_body (concat (dup_sets cm)) cm"

text \<open>Round B: the rock-type mix is added.\<close>

definition round_B_body :: "cmap \<Rightarrow> string \<Rightarrow> error + string \<times> string" where
  "round_B_body cm grp =
     (case get_entry cm grp of
        Inl e \<Rightarrow> Inl e
      | Inr d \<Rightarrow>
          (let roc = roc_colors d; r1 = r1_colors d; ida = idade_color d
           in case (if roc \<noteq> [] then mix_two ida roc (1 / 2)
                    else Inr (or_else ida (or_else r1 DEFAULT_GRAY))) of
                Inl e \<Rightarrow> Inl e
              | Inr base \<Rightarrow>
                  if r1 \<noteq> [] then
                    (case mix_two base r1 (1 / 2) of
                       Inl e \<Rightarrow> Inl e
                     | Inr c \<Rightarrow> Inr (grp, c))
                  else Inr (grp, base)))"

definition round_B :: "cmap \<Rightarrow> error + cmap" where
  "round_B cm = for_groups round_B_body (concat (dup_sets cm)) cm"

text \<open>
  Round C: one pass of the jitter over the collision sets found before the pass, each set
  sorted and enumerated; then the loop of at most three passes.
\<close>

definition jitter_body :: "hls_shift \<Rightarrow> nat \<Rightarrow> cmap \<Rightarrow> nat \<times> string \<Rightarrow> error + string \<times> string" where
  "jitter_body hls tries cm ig =
     (case ig of (i, grp) \<Rightarrow>
        (case get_entry cm grp of
           Inl e \<Rightarrow> Inl e
         | Inr d \<Rightarrow>
             (case jitter hls (or_else (grp_color d) DEFAULT_GRAY) i (5 / 100)
                     (if 0 < tries then 2 / 100 else 15 / 1000) of
                Inl e \<Rightarrow> Inl e
              | Inr c \<Rightarrow> Inr (grp, c))))"

definition jitter_pass :: "hls_shift \<Rightarrow> nat \<Rightarrow> string list list \<Rightarrow> cmap \<Rightarrow> error + cmap" where
  "jitter_pass hls tries dups cm =
     for_groups (jitter_body hls tries)
       (concat (map (\<lambda>group_list. enumerate 0 (sort group_list)) dups)) cm"

function round_C :: "hls_shift \<Rightarrow> nat \<Rightarrow> cmap \<Rightarrow> error + cmap" where
  "round_C hls tries cm =
     (if dup_sets cm \<noteq> [] \<and> tries < 3 then
        (case jitter_pass hls tries (dup_sets cm) cm of
           Inl e \<Rightarrow> Inl e
         | Inr cm' \<Rightarrow> round_C hls (tries + 1) cm')
      else Inr cm)"
  by pat_completeness auto
termination
  by (relation "measure (\<lambda>(hls, tries, cm). 3 - tries)") auto

section \<open>Notions of the specification and sample inputs\<close>

text \<open>
  A nice number has the form \<open>s \<times> 10\<^sup>k\<close> with \<open>s\<close> among 1, 2, 2.5 and 5 and \<open>k\<close> an
  integer; \<open>least_nice_geq n v\<close> says that \<open>v\<close> is the smallest nice number not below \<open>n\<close>.
\<close>

definition nice_number :: "rat \<Rightarrow> bool" where
  "nice_number x = (\<exists>s \<in> {1, 2, 5 / 2, 5}. \<exists>k. x = s * pow10 k)"

definition least_nice_geq :: "rat \<Rightarrow> rat \<Rightarrow> bool" where
  "least_nice_geq n v = (nice_number v \<and> n \<le> v \<and> (\<forall>u. nice_number u \<and> n \<le> u \<longrightarrow> v \<le> u))"

text \<open>
  The regime in which the float arithmetic of the weighted mix is exact: weights that are
  integer multiples \<open>n \<times> 2\<^sup>t\<close> of one power of two. \<open>weighted_int\<close> and
  \<open>mix_weighted_int\<close> compute the same mix from the integers \<open>n\<close>, with one rounding of
  each quotient.
\<close>

definition grid :: "int \<Rightarrow> int \<Rightarrow> rat" where
  "grid n t = of_int n * pow2 t"

fun weighted_int :: "(rgb \<Rightarrow> int) \<Rightarrow> int \<Rightarrow> (string \<times> int) list \<Rightarrow> error + int" where
  "weighted_int ch acc [] = Inr acc"
| "weighted_int ch acc ((c, n) # ps) =
     (case hex_to_rgb c of Inl e \<Rightarrow> Inl e | Inr x \<Rightarrow> weighted_int ch (acc + ch x * n) ps)"

definition mix_weighted_int :: "string list \<Rightarrow> int list \<Rightarrow> error + string" where
  "mix_weighted_int colors ns =
     (let ips = filter (\<lambda>(c, n). c \<noteq> [] \<and> 0 < n) (zip colors ns)
      in if ips = [] then Inr []
         else
           (let S = sum_list (map snd ips);
                mean = (\<lambda>ch. case weighted_int ch 0 ips of
                                Inl e \<Rightarrow> Inl e
                              | Inr N \<Rightarrow> Inr (round_to_double (of_int N / of_int S)))
            in case mean fst of
                 Inl e \<Rightarrow> Inl e
               | Inr R \<Rightarrow>
                   (case mean (fst \<circ> snd) of
                      Inl e \<Rightarrow> Inl e
                    | Inr G \<Rightarrow>
                        (case mean (snd \<circ> snd) of
                           Inl e \<Rightarrow> Inl e
                         | Inr B \<Rightarrow>
                             (case round_float R of
                                Inl e \<Rightarrow> Inl e
                              | Inr r \<Rightarrow>
                                  (case round_float G of
                                     Inl e \<Rightarrow> Inl e
                                   | Inr g \<Rightarrow>
                                       (case round_float B of
                                          Inl e \<Rightarrow> Inl e
                                        | Inr b \<Rightarrow> Inr (rgb_to_hex (r, g, b)))))))))"

text \<open>The default settings of the class, and layers on which the theorems are run.\<close>

definition default_styler :: styler where
  "default_styler = \<lparr>stem_len = 2, ignore_allcaps = [''C'', ''D'', ''E'', ''A'', ''B'']\<rparr>"

definition sample_config :: scale_config where
  "sample_config =
     \<lparr>fig_width = 180, width_unit = ''mm'', dpi = Some 300, margin = 10, margin_unit = ''mm'',
      scale_round_to = Some ''nice'', scale_round_mode = ''ceil'', area_crs = None\<rparr>"

definition failing_gis :: gis where
  "failing_gis =
     \<lparr>laea = (\<lambda>g. ''+proj=laea''), proj_width = (\<lambda>g t. Inl ValueError),
      proj_areas = (\<lambda>g t. Inl ValueError)\<rparr>"


definition layer_projected :: layer where
  "layer_projected =
     \<lparr>empty = False, n_geoms = 3,
      layer_crs = Some \<lparr>crs_name = ''EPSG:31983'', is_geographic = False, is_projected = True\<rparr>,
      width_native = 27000, areas_native = [50000, 10, 30000]\<rparr>"

definition colliding_map :: cmap where
  "colliding_map =
     [(''g1'', \<lparr>grp_color = ''#AAAAAA'', idade_color = [], roc_colors = ''#102030'',
               r1_colors = [], qml_colors = ''#AAAAAA''\<rparr>),
      (''g2'', \<lparr>grp_color = ''#AAAAAA'', idade_color = [], roc_colors = ''#102030'',
               r1_colors = [], qml_colors = ''#AAAAAA''\<rparr>),
      (''g3'', \<lparr>grp_color = ''#102030'', idade_color = [], roc_colors = ''#102030'',
               r1_colors = [], qml_colors = []\<rparr>)]"

definition colliding_map_after_A :: cmap where
  "colliding_map_after_A =
     [(''g1'', \<lparr>grp_color = ''#102030'', idade_color = [], roc_colors = ''#102030'',
               r1_colors = [], qml_colors = ''#AAAAAA''\<rparr>),
      (''g2'', \<lparr>grp_color = ''#102030'', idade_color = [], roc_colors = ''#102030'',
               r1_colors = [], qml_colors = ''#AAAAAA''\<rparr>),
      (''g3'', \<lparr>grp_color = ''#102030'', idade_color = [], roc_colors = ''#102030'',
               r1_colors = [], qml_colors = []\<rparr>)]"

section \<open>Properties of the colour helpers\<close>

subsection \<open>Reading and printing a canonical colour\<close>

lemma upper_hex_cases:
  "d \<in> set upper_hex \<longleftrightarrow>
     d = CHR ''0'' \<or> d = CHR ''1'' \<or> d = CHR ''2'' \<or> d = CHR ''3'' \<or> d = CHR ''4'' \<or> d = CHR ''5''
     \<or> d = CHR ''6'' \<or> d = CHR ''7'' \<or> d = CHR ''8'' \<or> d = CHR ''9'' \<or> d = CHR ''A''
     \<or> d = CHR ''B'' \<or> d = CHR ''C'' \<or> d = CHR ''D'' \<or> d = CHR ''E'' \<or> d = CHR ''F''"
  by (simp add: upper_hex_def)

lemma hex_digit_upper: "n < 16 \<Longrightarrow> hex_digit n \<in> set upper_hex"
  unfolding hex_digit_def by (rule nth_mem) (simp add: upper_hex_def)

lemma upper_digit_value:
  "d \<in> set upper_hex \<Longrightarrow> \<exists>v<16. hexval d = Some v \<and> hex_digit v = d"
  unfolding upper_hex_cases by (elim disjE; simp add: hexval_def hex_digit_def upper_hex_def)

lemma upper_digit_plain:
  "d \<in> set upper_hex \<Longrightarrow>
     \<not> is_space d \<and> d \<noteq> CHR ''_'' \<and> d \<noteq> CHR ''-'' \<and> d \<noteq> CHR ''+'' \<and> d \<noteq> CHR ''#''
     \<and> d \<noteq> CHR ''x'' \<and> d \<noteq> CHR ''X''"
  unfolding upper_hex_cases by (elim disjE; simp add: is_space_def)

lemma canonical_shape:
  assumes "canonical_hex s"
  obtains d1 d2 d3 d4 d5 d6 where "s = [CHR ''#'', d1, d2, d3, d4, d5, d6]"
    "d1 \<in> set upper_hex" "d2 \<in> set upper_hex" "d3 \<in> set upper_hex"
    "d4 \<in> set upper_hex" "d5 \<in> set upper_hex" "d6 \<in> set upper_hex"
proof -
  from assms have len: "length s = 7" and h: "hd s = CHR ''#''"
    and all: "\<forall>c \<in> set (tl s). c \<in> set upper_hex"
    by (simp_all add: canonical_hex_def)
  from len obtain a d1 d2 d3 d4 d5 d6 where s: "s = [a, d1, d2, d3, d4, d5, d6]"
    by (auto simp: length_Suc_conv numeral_eq_Suc)
  with h all that show ?thesis by simp
qed

lemma int16_two_digits:
  assumes "hexval d1 = Some v1" "hexval d2 = Some v2"
    and "\<not> is_space d1" "\<not> is_space d2" "d1 \<noteq> CHR ''_''" "d2 \<noteq> CHR ''_''"
    and "d1 \<noteq> CHR ''-''" "d1 \<noteq> CHR ''+''" "d2 \<noteq> CHR ''x''" "d2 \<noteq> CHR ''X''"
  shows "int16 [d1, d2] = Inr (int (16 * v1 + v2))"
  using assms by (simp add: int16_def strip_def startswith_def hex_literal_def)

lemma fmt_02X_digits:
  assumes "v1 < 16" "v2 < 16"
  shows "fmt_02X (clamp255 (int (16 * v1 + v2))) = [hex_digit v1, hex_digit v2]"
proof -
  have "clamp255 (int (16 * v1 + v2)) = int (16 * v1 + v2)"
    using assms unfolding clamp255_def by linarith
  moreover have "(16 * v1 + v2) div 16 = v1" "(16 * v1 + v2) mod 16 = v2"
    using assms by simp_all
  ultimately show ?thesis unfolding fmt_02X_def by (simp only: nat_int)
qed

lemma pair_round_trip:
  assumes "d1 \<in> set upper_hex" "d2 \<in> set upper_hex"
  shows "\<exists>v. int16 [d1, d2] = Inr v \<and> fmt_02X (clamp255 v) = [d1, d2] \<and> 0 \<le> v \<and> v \<le> 255"
proof -
  from upper_digit_value[OF assms(1)] obtain v1
    where v1: "v1 < 16" "hexval d1 = Some v1" "hex_digit v1 = d1" by blast
  from upper_digit_value[OF assms(2)] obtain v2
    where v2: "v2 < 16" "hexval d2 = Some v2" "hex_digit v2 = d2" by blast
  have "int16 [d1, d2] = Inr (int (16 * v1 + v2))"
    using int16_two_digits[OF v1(2) v2(2)] upper_digit_plain[OF assms(1)]
      upper_digit_plain[OF assms(2)]
    by blast
  moreover have "fmt_02X (clamp255 (int (16 * v1 + v2))) = [d1, d2]"
    using fmt_02X_digits[OF v1(1) v2(1)] v1(3) v2(3) by simp
  moreover have "int (16 * v1 + v2) \<le> 255" using v1(1) v2(1) by linarith
  ultimately show ?thesis by (intro exI[of _ "int (16 * v1 + v2)"]) simp
qed

lemma canonical_round_trip:
  assumes "canonical_hex s"
  shows "\<exists>r g b. hex_to_rgb s = Inr (r, g, b) \<and> rgb_to_hex (r, g, b) = s
           \<and> 0 \<le> r \<and> r \<le> 255 \<and> 0 \<le> g \<and> g \<le> 255 \<and> 0 \<le> b \<and> b \<le> 255"
proof -
  from assms obtain d1 d2 d3 d4 d5 d6 where s: "s = [CHR ''#'', d1, d2, d3, d4, d5, d6]"
    and d: "d1 \<in> set upper_hex" "d2 \<in> set upper_hex" "d3 \<in> set upper_hex"
      "d4 \<in> set upper_hex" "d5 \<in> set upper_hex" "d6 \<in> set upper_hex"
    by (rule canonical_shape)
  from pair_round_trip[OF d(1,2)] obtain r
    where r: "int16 [d1, d2] = Inr r" "fmt_02X (clamp255 r) = [d1, d2]" "0 \<le> r" "r \<le> 255"
    by blast
  from pair_round_trip[OF d(3,4)] obtain g
    where g: "int16 [d3, d4] = Inr g" "fmt_02X (clamp255 g) = [d3, d4]" "0 \<le> g" "g \<le> 255"
    by blast
  from pair_round_trip[OF d(5,6)] obtain b
    where b: "int16 [d5, d6] = Inr b" "fmt_02X (clamp255 b) = [d5, d6]" "0 \<le> b" "b \<le> 255"
    by blast
  have nh: "d1 \<noteq> CHR ''#''" using upper_digit_plain[OF d(1)] by simp
  have "hex_to_rgb s = Inr (r, g, b)"
    unfolding hex_to_rgb_def s slice2_def using nh r(1) g(1) b(1) by simp
  moreover have "rgb_to_hex (r, g, b) = s"
    unfolding rgb_to_hex_def s using r(2) g(2) b(2) by simp
  ultimately show ?thesis using r(3,4) g(3,4) b(3,4) by blast
qed

lemma canonical_channels: "canonical_hex s \<Longrightarrow> channels_in_range s"
  using canonical_round_trip[of s] by (auto simp: channels_in_range_def)

lemma fmt_02X_upper: "c \<in> set (fmt_02X (clamp255 v)) \<Longrightarrow> c \<in> set upper_hex"
proof -
  have "nat (clamp255 v) div 16 < 16" "nat (clamp255 v) mod 16 < 16"
    by (auto simp: clamp255_def)
  then show "c \<in> set (fmt_02X (clamp255 v)) \<Longrightarrow> c \<in> set upper_hex"
    unfolding fmt_02X_def using hex_digit_upper by auto
qed

lemma length_fmt_02X: "length (fmt_02X v) = 2"
  by (simp add: fmt_02X_def)

lemma rgb_to_hex_canonical: "canonical_hex (rgb_to_hex c)"
proof -
  obtain r g b where c: "c = (r, g, b)" by (cases c) auto
  show ?thesis unfolding canonical_hex_def c rgb_to_hex_def
    using fmt_02X_upper[of _ r] fmt_02X_upper[of _ g] fmt_02X_upper[of _ b]
    by (auto simp add: length_fmt_02X)
qed

lemma rgb_to_hex_good: "canonical_hex (rgb_to_hex c) \<and> channels_in_range (rgb_to_hex c)"
  using rgb_to_hex_canonical canonical_channels by blast

lemma py_int_of_int: "py_int (of_int n) = n"
  by (simp add: py_int_def)

lemma canonical_nonempty: "canonical_hex s \<Longrightarrow> s \<noteq> []"
  by (auto simp: canonical_hex_def)

lemma mix_two_ends:
  assumes "canonical_hex c1" "canonical_hex c2"
  shows "mix_two c1 c2 0 = Inr c1 \<and> mix_two c1 c2 1 = Inr c2"
proof -
  from canonical_round_trip[OF assms(1)] obtain r1 g1 b1
    where 1: "hex_to_rgb c1 = Inr (r1, g1, b1)" "rgb_to_hex (r1, g1, b1) = c1" by blast
  from canonical_round_trip[OF assms(2)] obtain r2 g2 b2
    where 2: "hex_to_rgb c2 = Inr (r2, g2, b2)" "rgb_to_hex (r2, g2, b2) = c2" by blast
  show ?thesis using 1 2 canonical_nonempty[OF assms(1)] canonical_nonempty[OF assms(2)]
    by (simp add: mix_two_def py_int_of_int)
qed

subsection \<open>The two-colour blend at its end points\<close>

text \<open>
  C6, as amended. For two canonical colours the blend at weight 0 is the first colour and
  at weight 1 the second; when one colour is empty and the other is not, the other is
  returned as it is, whatever the weight; two empty colours give the empty colour.
\<close>

theorem mix_two_end_points:
  "(canonical_hex c1 \<and> canonical_hex c2 \<longrightarrow> mix_two c1 c2 0 = Inr c1 \<and> mix_two c1 c2 1 = Inr c2)
   \<and> (c \<noteq> [] \<longrightarrow> mix_two c [] a = Inr c \<and> mix_two [] c a = Inr c)
   \<and> mix_two [] [] a = Inr []"
  using mix_two_ends[of c1 c2] by (simp add: mix_two_def)

theorem mix_two_end_points_witness:
  "canonical_hex ''#102030'' \<and> canonical_hex ''#FFA07A''
   \<and> mix_two ''#102030'' ''#FFA07A'' 0 = Inr ''#102030''
   \<and> mix_two ''#102030'' ''#FFA07A'' 1 = Inr ''#FFA07A''
   \<and> ''#102030'' \<noteq> [] \<and> mix_two ''#102030'' [] (1 / 2) = Inr ''#102030''
   \<and> mix_two [] ''#102030'' (1 / 2) = Inr ''#102030''"
proof -
  have c: "canonical_hex ''#102030''" "canonical_hex ''#FFA07A''"
    by (simp_all add: canonical_hex_def upper_hex_def)
  show ?thesis
    using c mix_two_end_points [of "''#102030''" "''#FFA07A''" "''#102030''" "1 / 2"] by simp
qed

text \<open>
  The claim as stated fails: at weight 0 an empty first colour is not returned, and a
  first colour in lower case comes back in upper case.
\<close>

theorem mix_two_weight_zero_counterexample:
  "mix_two [] ''#FFFFFF'' 0 = Inr ''#FFFFFF'' \<and> ''#FFFFFF'' \<noteq> ([] :: string)
   \<and> mix_two ''#ffffff'' ''#000000'' 0 = Inr ''#FFFFFF'' \<and> ''#FFFFFF'' \<noteq> ''#ffffff''"
  by code_simp

subsection \<open>The form of the colours produced\<close>

lemma mix_two_result:
  assumes "mix_two c1 c2 a = Inr s"
  shows "s = [] \<or> (canonical_hex s \<and> channels_in_range s) \<or> (c1 = [] \<and> s = c2)
           \<or> (c2 = [] \<and> s = c1)"
  using assms rgb_to_hex_good
  by (auto simp: mix_two_def split: if_splits sum.splits prod.splits)

lemma mix_many_result:
  "mix_many cs = Inr s \<Longrightarrow> s = [] \<or> (canonical_hex s \<and> channels_in_range s)"
  using rgb_to_hex_good
  by (auto simp: mix_many_def Let_def split: if_splits sum.splits)

lemma mix_weighted_result:
  "mix_weighted cs ws = Inr s \<Longrightarrow> s = [] \<or> (canonical_hex s \<and> channels_in_range s)"
  using rgb_to_hex_good
  by (auto simp: mix_weighted_def Let_def split: if_splits sum.splits)

lemma jitter_result:
  "jitter hls c k dh dl = Inr s \<Longrightarrow> s = [] \<or> (canonical_hex s \<and> channels_in_range s)"
  using rgb_to_hex_good
  by (auto simp: jitter_def split: if_splits sum.splits)

text \<open>
  C10, as amended. A colour returned by the unweighted mean, by the weighted mix or by the
  jitter is empty or canonical, with its three channels between 0 and 255. A colour
  returned by the two-colour blend is empty, canonical, or, when one of its arguments is
  empty, the other argument as it was given.
\<close>

theorem blend_results_canonical:
  "(mix_two c1 c2 a = Inr s1 \<longrightarrow>
      s1 = [] \<or> (canonical_hex s1 \<and> channels_in_range s1) \<or> (c1 = [] \<and> s1 = c2)
      \<or> (c2 = [] \<and> s1 = c1))
   \<and> (mix_many cs = Inr s2 \<longrightarrow> s2 = [] \<or> (canonical_hex s2 \<and> channels_in_range s2))
   \<and> (mix_weighted ds ws = Inr s3 \<longrightarrow> s3 = [] \<or> (canonical_hex s3 \<and> channels_in_range s3))
   \<and> (jitter hls c k dh dl = Inr s4 \<longrightarrow> s4 = [] \<or> (canonical_hex s4 \<and> channels_in_range s4))"
  using mix_two_result mix_many_result mix_weighted_result jitter_result by blast

theorem blend_results_canonical_witness:
  "mix_two ''#000000'' ''#FFFFFF'' (1 / 2) = Inr ''#7F7F7F''
   \<and> mix_many [''#000000'', ''#FFFFFF'', []] = Inr ''#7F7F7F''
   \<and> mix_weighted [''#000000'', ''#FFFFFF''] [Finite 1, Finite 1] = Inr ''#808080''
   \<and> jitter (\<lambda>c k dh dl. Inr c) ''#102030'' 1 (5 / 100) (2 / 100) = Inr ''#102030''
   \<and> canonical_hex ''#7F7F7F'' \<and> channels_in_range ''#7F7F7F''
   \<and> canonical_hex ''#808080'' \<and> channels_in_range ''#808080''
   \<and> canonical_hex ''#102030'' \<and> channels_in_range ''#102030''"
proof -
  have 1: "mix_two ''#000000'' ''#FFFFFF'' (1 / 2) = Inr ''#7F7F7F''" by code_simp
  have 2: "mix_many [''#000000'', ''#FFFFFF'', []] = Inr ''#7F7F7F''" by code_simp
  have 3: "mix_weighted [''#000000'', ''#FFFFFF''] [Finite 1, Finite 1] = Inr ''#808080''" by code_simp
  have 4: "jitter (\<lambda>c k dh dl. Inr c) ''#102030'' 1 (5 / 100) (2 / 100) = Inr ''#102030''"
    by code_simp
  show ?thesis
    using 1 2 3 4
      blend_results_canonical [of "''#000000''" "''#FFFFFF''" "1 / 2" "''#7F7F7F''"
        "[''#000000'', ''#FFFFFF'', []]" "''#7F7F7F''" "[''#000000'', ''#FFFFFF'']"
        "[Finite 1, Finite 1]"
        "''#808080''" "\<lambda>c k dh dl. Inr c" "''#102030''" 1 "5 / 100" "2 / 100" "''#102030''"]
    by simp
qed

text \<open>
  The claim as stated fails: with an empty first colour the blend hands back the second
  one untouched, here a colour in lower case.
\<close>

theorem mix_two_passes_noncanonical:
  "mix_two [] ''#abcdef'' (1 / 2) = Inr ''#abcdef'' \<and> ''#abcdef'' \<noteq> []
   \<and> \<not> canonical_hex ''#abcdef''"
  by (simp add: mix_two_def canonical_hex_def upper_hex_def)

subsection \<open>The weighted mix under a scaling of the weights\<close>

lemma pow2_pos: "0 < pow2 k" by (simp add: pow2_def)
lemma pow2_nat: "pow2 (int d) = 2 ^ d" by (simp add: pow2_def)
lemma pow2_neg: "pow2 (- int d) = 1 / 2 ^ d" by (simp add: pow2_def power_int_minus_divide)
lemma pow2_Suc: "pow2 (k + 1) = 2 * pow2 k" by (simp add: pow2_def power_int_add_1)
lemma pow2_add: "pow2 (j + k) = pow2 j * pow2 k" by (simp add: pow2_def power_int_add)
lemma pow2_mono: "j \<le> k \<Longrightarrow> pow2 j \<le> pow2 k" by (simp add: pow2_def power_int_increasing)
lemma pow2_less_cancel: "pow2 j < pow2 k \<Longrightarrow> j < k"
  using pow2_mono[of k j] by (cases "j < k") auto

lemma ilog2_bounds:
  "1 \<le> m \<Longrightarrow> 2 ^ ilog2 m \<le> m \<and> m < 2 ^ Suc (ilog2 m)"
proof (induction m rule: ilog2.induct)
  case (1 m)
  show ?case
  proof (cases "m < 2")
    case True
    with "1.prems" show ?thesis by simp
  next
    case False
    then have q: "1 \<le> m div 2" by simp
    from "1.IH"[OF False q]
    have ih: "2 ^ ilog2 (m div 2) \<le> m div 2" "m div 2 < 2 ^ Suc (ilog2 (m div 2))"
      by simp_all
    have e: "ilog2 m = Suc (ilog2 (m div 2))" using False by simp
    have "2 * (m div 2) \<le> m" "m < 2 * (m div 2 + 1)" by simp_all
    with ih show ?thesis unfolding e by simp
  qed
qed

lemma bits_bounds:
  assumes "1 \<le> (x::rat)"
  shows "2 ^ ilog2 \<lfloor>x\<rfloor> \<le> x \<and> x < 2 ^ Suc (ilog2 \<lfloor>x\<rfloor>)"
proof -
  define m where "m = \<lfloor>x\<rfloor>"
  have m1: "1 \<le> m" using assms unfolding m_def by simp
  have mx: "of_int m \<le> x" "x < of_int m + 1" using floor_correct[of x] unfolding m_def by simp_all
  from ilog2_bounds[OF m1] have b: "2 ^ ilog2 m \<le> m" "m + 1 \<le> 2 ^ Suc (ilog2 m)" by simp_all
  from b(1) have "(of_int (2 ^ ilog2 m) :: rat) \<le> of_int m" by (simp only: of_int_le_iff)
  then have 1: "(2::rat) ^ ilog2 m \<le> of_int m" by simp
  from b(2) have "(of_int (m + 1) :: rat) \<le> of_int (2 ^ Suc (ilog2 m))" by (simp only: of_int_le_iff)
  then have 2: "of_int m + 1 \<le> (2::rat) ^ Suc (ilog2 m)" by simp
  show ?thesis using 1 2 mx unfolding m_def[symmetric] by linarith
qed

lemma floor_log2_bounds:
  assumes "0 < x"
  shows "pow2 (floor_log2 x) \<le> x \<and> x < pow2 (floor_log2 x + 1)"
proof (cases "1 \<le> x")
  case True
  define d where "d = ilog2 \<lfloor>x\<rfloor>"
  have k: "floor_log2 x = int d" using True by (simp add: floor_log2_def d_def)
  have k1: "floor_log2 x + 1 = int (Suc d)" using k by simp
  have p1: "pow2 (floor_log2 x) = 2 ^ d" unfolding k pow2_nat ..
  have p2: "pow2 (floor_log2 x + 1) = 2 ^ Suc d" unfolding k1 pow2_nat ..
  show ?thesis unfolding p1 p2 using bits_bounds[OF True] unfolding d_def by simp
next
  case False
  define m where "m = 1 / x"
  have m1: "1 \<le> m" using False assms unfolding m_def by simp
  define d where "d = ilog2 \<lfloor>m\<rfloor>"
  have b: "2 ^ d \<le> m" "m < 2 ^ Suc d" using bits_bounds[OF m1] unfolding d_def by simp_all
  have n: "x = 1 / m" unfolding m_def by simp
  have mpos: "0 < m" using m1 by simp
  have fl: "floor_log2 x = (if m = 2 ^ d then - int d else - int d - 1)"
    using False unfolding floor_log2_def m_def d_def by (simp add: Let_def)
  show ?thesis
  proof (cases "m = 2 ^ d")
    case True
    have k: "floor_log2 x = - int d" unfolding fl using True by simp
    have "pow2 (- int d) = x" unfolding pow2_neg n True ..
    then have p: "pow2 (floor_log2 x) = x" unfolding k .
    show ?thesis unfolding pow2_Suc p using assms by simp
  next
    case neq: False
    have k: "floor_log2 x = - int (Suc d)" unfolding fl using neq by simp
    have k1: "floor_log2 x + 1 = - int d" using k by simp
    have lt: "2 ^ d < m" using b(1) neq by simp
    have 1: "1 / 2 ^ Suc d \<le> 1 / m" using b(2) mpos by (intro divide_left_mono) simp_all
    have 2: "1 / m < 1 / 2 ^ d" using lt by (intro divide_strict_left_mono) (simp_all add: mpos)
    have p1: "pow2 (floor_log2 x) = 1 / 2 ^ Suc d" unfolding k pow2_neg ..
    have p2: "pow2 (floor_log2 x + 1) = 1 / 2 ^ d" unfolding k1 pow2_neg ..
    show ?thesis unfolding p1 p2 using 1 2 n by simp
  qed
qed

lemma py_round_of_int: "py_round (of_int z) = z"
  by (simp add: py_round_def Let_def)

lemma grid_round:
  assumes "\<bar>n\<bar> < 2 ^ 53" "- 1074 \<le> t" "t \<le> 970"
  shows "round_to_double (grid n t) = Finite (grid n t)"
proof (cases "n = 0")
  case True
  then show ?thesis by (simp add: grid_def round_to_double_def)
next
  case False
  define x where "x = grid n t"
  have xn: "x \<noteq> 0" using False pow2_pos[of t] unfolding x_def grid_def by simp
  have ax: "\<bar>x\<bar> = of_int \<bar>n\<bar> * pow2 t"
    unfolding x_def grid_def using pow2_pos[of t] by (simp add: abs_mult)
  have "(of_int \<bar>n\<bar> :: rat) < of_int (2 ^ 53)" using assms(1) by (simp only: of_int_less_iff)
  then have nb: "(of_int \<bar>n\<bar> :: rat) < 2 ^ 53" by simp
  have up: "\<bar>x\<bar> < pow2 (53 + t)"
    unfolding ax pow2_add using nb pow2_pos[of t] by (simp add: pow2_def)
  define e where "e = max (floor_log2 \<bar>x\<bar> - 52) (- 1074)"
  have "pow2 (floor_log2 \<bar>x\<bar>) < pow2 (53 + t)"
    using floor_log2_bounds[of "\<bar>x\<bar>"] xn up by simp
  then have "floor_log2 \<bar>x\<bar> < 53 + t" by (rule pow2_less_cancel)
  then have et: "e \<le> t" unfolding e_def using assms(2) by simp
  then obtain d where d: "t = e + int d" by (metis zle_iff_zadd)
  have q: "x / pow2 e = of_int (n * 2 ^ d)"
    unfolding x_def grid_def d pow2_add pow2_nat using pow2_pos[of e] by simp
  have r: "of_int (py_round (x / pow2 e)) * pow2 e = x"
    unfolding q py_round_of_int unfolding x_def grid_def d pow2_add pow2_nat by simp
  have "pow2 (53 + t) \<le> pow2 1023" using assms(3) by (intro pow2_mono) simp
  then have "pow2 (floor_log2 \<bar>x\<bar>) < pow2 1023"
    using floor_log2_bounds[of "\<bar>x\<bar>"] xn up by simp
  then have "floor_log2 \<bar>x\<bar> < 1023" by (rule pow2_less_cancel)
  then have small: "\<not> 1024 \<le> floor_log2 \<bar>x\<bar>" by simp
  show ?thesis
    unfolding x_def[symmetric] round_to_double_def e_def[symmetric] Let_def r
    using xn small by simp
qed

lemma hexval_small: "hexval d = Some v \<Longrightarrow> v < 16"
  by (auto simp: hexval_def split: if_splits)

lemma hex_digits_bound: "hex_digits acc s = Some n \<Longrightarrow> n < (acc + 1) * 16 ^ length s"
proof (induction acc s arbitrary: n rule: hex_digits.induct)
  case (1 acc)
  then show ?case by simp
next
  case (2 acc c cs)
  show ?case
  proof (cases "c = CHR ''_''")
    case True
    with "2.prems" obtain d ds v where cs: "cs = d # ds" and v: "hexval d = Some v"
      and r: "hex_digits (16 * acc + v) ds = Some n"
      by (auto split: list.splits option.splits)
    from "2.IH"(1)[OF True cs v r] have "n < (16 * acc + v + 1) * 16 ^ length ds" .
    also have "\<dots> \<le> (16 * acc + 16) * 16 ^ length ds"
      using hexval_small[OF v] by (intro mult_right_mono) simp_all
    also have "\<dots> = (acc + 1) * 16 ^ Suc (length ds)" by (simp add: algebra_simps)
    also have "\<dots> \<le> (acc + 1) * 16 ^ length (c # cs)"
      unfolding cs by (intro mult_left_mono power_increasing) simp_all
    finally show ?thesis .
  next
    case False
    with "2.prems" obtain v where v: "hexval c = Some v"
      and r: "hex_digits (16 * acc + v) cs = Some n"
      by (auto split: option.splits)
    from "2.IH"(2)[OF False v r] have "n < (16 * acc + v + 1) * 16 ^ length cs" .
    also have "\<dots> \<le> (16 * acc + 16) * 16 ^ length cs"
      using hexval_small[OF v] by (intro mult_right_mono) simp_all
    also have "\<dots> = (acc + 1) * 16 ^ length (c # cs)" by (simp add: algebra_simps)
    finally show ?thesis .
  qed
qed

lemma hex_literal_bound:
  assumes "hex_literal u = Some n" "length u \<le> 2"
  shows "n < 256"
proof -
  define t where "t = (if startswith u ''0x'' \<or> startswith u ''0X'' then drop 2 u else u)"
  have lt: "length t \<le> 2" using assms(2) unfolding t_def by simp
  from assms(1) have "hex_digits 0 t = Some n"
    unfolding hex_literal_def t_def[symmetric] Let_def by (auto split: list.splits if_splits)
  from hex_digits_bound[OF this] have "n < 16 ^ length t" by simp
  also have "\<dots> \<le> 16 ^ 2" using lt by (intro power_increasing) simp_all
  finally show ?thesis by simp
qed

lemma length_strip: "length (strip s) \<le> length s"
proof -
  have "length (dropWhile P xs) \<le> length xs" for P and xs :: string
    by (induction xs) auto
  then have "length (dropWhile is_space (rev (dropWhile is_space s))) \<le> length (dropWhile is_space s)"
    "length (dropWhile is_space s) \<le> length s"
    by (metis length_rev)+
  then show ?thesis unfolding strip_def by simp
qed

lemma int16_bound:
  assumes "int16 s = Inr v" "length s \<le> 2"
  shows "\<bar>v\<bar> \<le> 255"
proof -
  define t where "t = strip s"
  define u where "u = (if startswith t ''-'' \<or> startswith t ''+'' then drop 1 t else t)"
  have "length t \<le> 2" using length_strip[of s] assms(2) unfolding t_def by simp
  then have "length u \<le> 2" unfolding u_def by auto
  moreover from assms(1) obtain n where n: "hex_literal u = Some n" and v: "v = int n \<or> v = - int n"
    unfolding int16_def t_def[symmetric] Let_def u_def[symmetric]
    by (auto split: option.splits if_splits)
  ultimately have "n < 256" by (intro hex_literal_bound)
  with v show ?thesis by auto
qed

lemma hex_to_rgb_bound:
  assumes "hex_to_rgb c = Inr (r, g, b)"
  shows "\<bar>r\<bar> \<le> 255 \<and> \<bar>g\<bar> \<le> 255 \<and> \<bar>b\<bar> \<le> 255"
proof -
  have l: "length (slice2 h i) \<le> 2" for h i by (simp add: slice2_def)
  from assms show ?thesis
    unfolding hex_to_rgb_def Let_def
    by (auto split: sum.splits dest!: int16_bound[OF _ l])
qed

lemma grid_add: "grid x u + grid y u = grid (x + y) u"
  by (simp add: grid_def algebra_simps)

lemma grid_mult: "grid x u * grid y v = grid (x * y) (u + v)"
  by (simp add: grid_def pow2_add)

lemma grid_scale: "of_int c * grid y v = grid (c * y) v"
  by (simp add: grid_def)

lemma grid_zero: "grid 0 u = 0"
  by (simp add: grid_def)

lemma grid_pos: "0 < grid n u \<longleftrightarrow> 0 < n"
  using pow2_pos[of u] by (simp add: grid_def zero_less_mult_iff)

lemma grid_div: "0 < a \<Longrightarrow> grid (a * N) u / grid (a * S) u = of_int N / of_int S"
  using pow2_pos[of u] by (simp add: grid_def)

lemma elem_le_sum:
  assumes "\<forall>n \<in> set ns. 0 \<le> (n::int)" "x \<in> set ns"
  shows "x \<le> sum_list ns"
  using assms
proof (induction ns)
  case Nil
  then show ?case by simp
next
  case (Cons n ns)
  have "0 \<le> sum_list ns" using Cons.prems(1) by (intro sum_list_nonneg) simp
  with Cons show ?case by auto
qed

lemma kept_sum_le:
  assumes "\<forall>n \<in> set ns. 0 \<le> (n::int)"
  shows "sum_list (map snd (filter P (zip cs ns))) \<le> sum_list ns"
  using assms
proof (induction cs arbitrary: ns)
  case Nil
  then show ?case by (simp add: sum_list_nonneg)
next
  case (Cons c cs)
  show ?case
  proof (cases ns)
    case Nil
    then show ?thesis by simp
  next
    case (Cons n ns')
    with Cons.prems have "0 \<le> n" "\<forall>n \<in> set ns'. 0 \<le> n" by simp_all
    with Cons.IH[of ns'] Cons show ?thesis by auto
  qed
qed

lemma float_sum_grid:
  assumes "0 \<le> a" "- 1074 \<le> u" "u \<le> 970" "\<forall>n \<in> set ms. 0 \<le> n" "0 \<le> A"
    "a * (A + sum_list ms) < 2 ^ 53"
  shows "foldl float_add (Finite (grid (a * A) u)) (map (\<lambda>n. Finite (grid (a * n) u)) ms)
         = Finite (grid (a * (A + sum_list ms)) u)"
  using assms(4-6)
proof (induction ms arbitrary: A)
  case Nil
  then show ?case by simp
next
  case (Cons n ms)
  have n0: "0 \<le> n" and rest: "\<forall>n \<in> set ms. 0 \<le> n" using Cons.prems(1) by simp_all
  have s0: "0 \<le> sum_list ms" using rest by (intro sum_list_nonneg) simp
  have "a * (A + n) \<le> a * (A + sum_list (n # ms))"
    using assms(1) s0 by (intro mult_left_mono) simp_all
  then have b: "\<bar>a * (A + n)\<bar> < 2 ^ 53"
    using Cons.prems(3) assms(1) Cons.prems(2) n0 by simp
  have step: "float_add (Finite (grid (a * A) u)) (Finite (grid (a * n) u))
              = Finite (grid (a * (A + n)) u)"
    using grid_round[OF b assms(2,3)] by (simp add: grid_add algebra_simps)
  have "0 \<le> A + n" using Cons.prems(2) n0 by simp
  moreover have "a * (A + n + sum_list ms) < 2 ^ 53" using Cons.prems(3) by (simp add: algebra_simps)
  ultimately show ?case using Cons.IH[OF rest, of "A + n"] step by (simp add: algebra_simps)
qed

lemma weighted_sum_grid:
  assumes "0 \<le> a" "- 1074 \<le> u" "u \<le> 970"
    and chb: "\<And>c x. hex_to_rgb c = Inr x \<Longrightarrow> \<bar>ch x\<bar> \<le> 255"
    and "\<forall>p \<in> set ips. 0 \<le> snd p"
    and "a * (\<bar>A\<bar> + 255 * sum_list (map snd ips)) < 2 ^ 53"
  shows "weighted_sum ch (Finite (grid (a * A) u)) (map (\<lambda>(c, n). (c, Finite (grid (a * n) u))) ips)
         = (case weighted_int ch A ips of
              Inl e \<Rightarrow> Inl e
            | Inr N \<Rightarrow> Inr (Finite (grid (a * N) u)))"
  using assms(5,6)
proof (induction ips arbitrary: A)
  case Nil
  then show ?case by simp
next
  case (Cons p ips)
  obtain c n where p: "p = (c, n)" by (cases p)
  have n0: "0 \<le> n" and rest: "\<forall>p \<in> set ips. 0 \<le> snd p" using Cons.prems(1) p by simp_all
  have s0: "0 \<le> sum_list (map snd ips)" using rest by (intro sum_list_nonneg) auto
  show ?case
  proof (cases "hex_to_rgb c")
    case (Inl e)
    then show ?thesis by (simp add: p)
  next
    case (Inr x)
    have cx: "\<bar>ch x\<bar> \<le> 255" using chb[OF Inr] .
    have cn: "\<bar>ch x * n\<bar> \<le> 255 * n" using cx n0 by (simp add: abs_mult mult_right_mono)
    have tot: "a * (\<bar>A\<bar> + 255 * n + 255 * sum_list (map snd ips)) < 2 ^ 53"
      using Cons.prems(2) by (simp add: p algebra_simps)
    have "a * \<bar>ch x * n\<bar> \<le> a * (\<bar>A\<bar> + 255 * n + 255 * sum_list (map snd ips))"
      using cn s0 assms(1) by (intro mult_left_mono) simp_all
    then have b1: "\<bar>ch x * (a * n)\<bar> < 2 ^ 53"
      using tot assms(1) by (simp add: abs_mult algebra_simps)
    have prod: "float_mul (Finite (of_int (ch x))) (Finite (grid (a * n) u))
                = Finite (grid (ch x * (a * n)) u)"
      using grid_round[OF b1 assms(2,3)] by (simp add: grid_scale)
    have "\<bar>A + ch x * n\<bar> \<le> \<bar>A\<bar> + 255 * n" using cn by linarith
    then have le: "\<bar>A + ch x * n\<bar> + 255 * sum_list (map snd ips)
                   \<le> \<bar>A\<bar> + 255 * n + 255 * sum_list (map snd ips)" by simp
    have "a * \<bar>A + ch x * n\<bar> \<le> a * (\<bar>A\<bar> + 255 * n + 255 * sum_list (map snd ips))"
      using le s0 assms(1) by (intro mult_left_mono) simp_all
    then have b2: "\<bar>a * (A + ch x * n)\<bar> < 2 ^ 53"
      using tot assms(1) by (simp add: abs_mult)
    have sum: "float_add (Finite (grid (a * A) u)) (Finite (grid (ch x * (a * n)) u))
               = Finite (grid (a * (A + ch x * n)) u)"
      using grid_round[OF b2 assms(2,3)] by (simp add: grid_add algebra_simps)
    have "a * (\<bar>A + ch x * n\<bar> + 255 * sum_list (map snd ips)) < 2 ^ 53"
      using mult_left_mono[OF le assms(1)] tot by linarith
    from Cons.IH[OF rest this] show ?thesis
      by (simp add: p Inr prod sum del: float_mul.simps float_add.simps)
  qed
qed

lemma channel_mean_grid:
  assumes "0 < a" "- 1074 \<le> u" "u \<le> 970"
    and chb: "\<And>c x. hex_to_rgb c = Inr x \<Longrightarrow> \<bar>ch x\<bar> \<le> 255"
    and "\<forall>p \<in> set ips. 0 \<le> snd p"
    and "a * (255 * sum_list (map snd ips)) < 2 ^ 53"
    and "0 < S"
  shows "channel_mean ch (map (\<lambda>(c, n). (c, Finite (grid (a * n) u))) ips) (Finite (grid (a * S) u))
         = (case weighted_int ch 0 ips of
              Inl e \<Rightarrow> Inl e
            | Inr N \<Rightarrow> Inr (round_to_double (of_int N / of_int S)))"
proof -
  have a0: "0 \<le> a" using assms(1) by simp
  have b: "a * (\<bar>0\<bar> + 255 * sum_list (map snd ips)) < 2 ^ 53" using assms(6) by simp
  have ws: "weighted_sum ch (Finite 0) (map (\<lambda>(c, n). (c, Finite (grid (a * n) u))) ips)
         = (case weighted_int ch 0 ips of
              Inl e \<Rightarrow> Inl e
            | Inr N \<Rightarrow> Inr (Finite (grid (a * N) u)))"
    using weighted_sum_grid[OF a0 assms(2,3) chb assms(5) b] by (simp add: grid_zero)
  have nz: "grid (a * S) u \<noteq> 0" using grid_pos[of "a * S" u] assms(1,7) by simp
  show ?thesis
    unfolding channel_mean_def ws
    using nz by (simp add: float_div_def grid_div[OF assms(1)] split: sum.splits)
qed

lemma kept_pairs_grid_aux:
  assumes "0 < a"
  shows "filter (\<lambda>(c, w). c \<noteq> [] \<and> float_gt0 w) (zip colors (map (\<lambda>n. Finite (grid (a * n) u)) ns))
         = map (\<lambda>(c, n). (c, Finite (grid (a * n) u)))
             (filter (\<lambda>(c, n). c \<noteq> [] \<and> 0 < n) (zip colors ns))"
proof (induction colors arbitrary: ns)
  case Nil
  then show ?case by simp
next
  case (Cons c cs)
  show ?case
  proof (cases ns)
    case Nil
    then show ?thesis by simp
  next
    case (Cons n ns')
    have "float_gt0 (Finite (grid (a * n) u)) = (0 < n)"
      using assms by (simp add: float_gt0_def grid_pos zero_less_mult_iff)
    with Cons.IH[of ns'] Cons show ?thesis by simp
  qed
qed

lemma to_float_grid:
  assumes "0 \<le> a" "- 1074 \<le> u" "u \<le> 970" "\<forall>n \<in> set ns. 0 \<le> n" "a * sum_list ns < 2 ^ 53"
  shows "map to_float (map (\<lambda>n. Finite (grid (a * n) u)) ns) = map (\<lambda>n. Finite (grid (a * n) u)) ns"
proof -
  have "to_float (Finite (grid (a * n) u)) = Finite (grid (a * n) u)" if n: "n \<in> set ns" for n
  proof -
    have n0: "0 \<le> n" using assms(4) n by simp
    have "n \<le> sum_list ns" using elem_le_sum[OF assms(4) n] .
    then have "a * n \<le> a * sum_list ns" using assms(1) by (intro mult_left_mono)
    moreover have "0 \<le> a * n" using n0 assms(1) by simp
    ultimately have "\<bar>a * n\<bar> < 2 ^ 53" using assms(5) by linarith
    from grid_round[OF this assms(2,3)] show ?thesis by (simp add: to_float_def)
  qed
  then show ?thesis by simp
qed

lemma kept_positive_sum:
  assumes "ips = filter (\<lambda>(c, n). c \<noteq> [] \<and> 0 < n) (zip colors (ns :: int list))" "ips \<noteq> []"
  shows "0 < sum_list (map snd ips)" "\<forall>p \<in> set ips. 0 \<le> snd p" "\<forall>n \<in> set (map snd ips). 0 \<le> n"
proof -
  have pos: "\<forall>p \<in> set ips. 0 < snd p" unfolding assms(1) by auto
  then show nn: "\<forall>p \<in> set ips. 0 \<le> snd p" by auto
  then show "\<forall>n \<in> set (map snd ips). 0 \<le> n" by simp
  from assms(2) obtain p ps where ips: "ips = p # ps" by (cases ips) auto
  have "0 \<le> sum_list (map snd ps)" using pos unfolding ips by (intro sum_list_nonneg) auto
  moreover have "0 < snd p" using pos unfolding ips by simp
  ultimately show "0 < sum_list (map snd ips)" unfolding ips by simp
qed

lemma channel_bounds:
  assumes "hex_to_rgb c = Inr x"
  shows "\<bar>fst x\<bar> \<le> 255" "\<bar>(fst \<circ> snd) x\<bar> \<le> 255" "\<bar>(snd \<circ> snd) x\<bar> \<le> 255"
  using hex_to_rgb_bound[of c "fst x" "fst (snd x)" "snd (snd x)"] assms by simp_all

lemma mix_weighted_grid:
  assumes "0 < a" "- 1074 \<le> u" "u \<le> 970" "\<forall>n \<in> set ns. 0 \<le> n" "255 * a * sum_list ns < 2 ^ 53"
  shows "mix_weighted colors (map (\<lambda>n. Finite (grid (a * n) u)) ns) = mix_weighted_int colors ns"
proof -
  define ips where "ips = filter (\<lambda>(c, n). c \<noteq> [] \<and> 0 < n) (zip colors ns)"
  define P where "P = map (\<lambda>(c, n). (c, Finite (grid (a * n) u))) ips"
  define S where "S = sum_list (map snd ips)"
  have a0: "0 \<le> a" using assms(1) by simp
  have s0: "0 \<le> sum_list ns" using assms(4) by (intro sum_list_nonneg) simp
  have as: "0 \<le> a * sum_list ns" using a0 s0 by simp
  have small: "a * sum_list ns < 2 ^ 53" using assms(5) as by linarith
  have pairs: "filter (\<lambda>(c, w). c \<noteq> [] \<and> float_gt0 w)
      (zip colors (map to_float (map (\<lambda>n. Finite (grid (a * n) u)) ns))) = P"
    unfolding to_float_grid[OF a0 assms(2,3,4) small] kept_pairs_grid_aux[OF assms(1)] P_def ips_def ..
  have empty: "(P = []) = (ips = [])" unfolding P_def by simp
  show ?thesis
  proof (cases "ips = []")
    case True
    then show ?thesis
      unfolding mix_weighted_def mix_weighted_int_def pairs ips_def[symmetric] Let_def
      by (simp add: empty)
  next
    case False
    note kp = kept_positive_sum[OF ips_def False]
    have Spos: "0 < S" unfolding S_def by (rule kp(1))
    have Sle: "S \<le> sum_list ns" unfolding S_def ips_def by (rule kept_sum_le[OF assms(4)])
    have "a * S \<le> a * sum_list ns" using Sle a0 by (intro mult_left_mono)
    then have b1: "a * (0 + S) < 2 ^ 53" using small by simp
    have "a * S \<le> a * sum_list ns" using Sle a0 by (intro mult_left_mono)
    then have "a * (255 * S) \<le> 255 * a * sum_list ns" by (simp add: ac_simps)
    then have b2: "a * (255 * sum_list (map snd ips)) < 2 ^ 53" using assms(5) unfolding S_def by simp
    have snds: "map snd P = map (\<lambda>n. Finite (grid (a * n) u)) (map snd ips)"
      unfolding P_def by (simp add: case_prod_beta comp_def)
    have sw: "float_sum (map snd P) = Finite (grid (a * S) u)"
      unfolding float_sum_def snds S_def
      using float_sum_grid[OF a0 assms(2,3) kp(3) order_refl b1[unfolded S_def]]
      by (simp add: grid_zero)
    have le0: "\<not> float_le0 (Finite (grid (a * S) u))"
      using grid_pos[of "a * S" u] assms(1) Spos by (simp add: float_le0_def)
    have m1: "channel_mean fst P (Finite (grid (a * S) u))
         = (case weighted_int fst 0 ips of
              Inl e \<Rightarrow> Inl e
            | Inr N \<Rightarrow> Inr (round_to_double (of_int N / of_int S)))"
      unfolding P_def
      by (rule channel_mean_grid[OF assms(1,2,3) _ kp(2) b2 Spos]) (rule channel_bounds(1))
    have m2: "channel_mean (fst \<circ> snd) P (Finite (grid (a * S) u))
         = (case weighted_int (fst \<circ> snd) 0 ips of
              Inl e \<Rightarrow> Inl e
            | Inr N \<Rightarrow> Inr (round_to_double (of_int N / of_int S)))"
      unfolding P_def
      by (rule channel_mean_grid[OF assms(1,2,3) _ kp(2) b2 Spos]) (rule channel_bounds(2))
    have m3: "channel_mean (snd \<circ> snd) P (Finite (grid (a * S) u))
         = (case weighted_int (snd \<circ> snd) 0 ips of
              Inl e \<Rightarrow> Inl e
            | Inr N \<Rightarrow> Inr (round_to_double (of_int N / of_int S)))"
      unfolding P_def
      by (rule channel_mean_grid[OF assms(1,2,3) _ kp(2) b2 Spos]) (rule channel_bounds(3))
    show ?thesis
      unfolding mix_weighted_def mix_weighted_int_def pairs ips_def[symmetric] Let_def
        sw S_def[symmetric]
      using False le0 by (simp add: empty m1 m2 m3 cong: sum.case_cong)
  qed
qed

lemma scaled_weights:
  assumes "0 < m" "- 1074 \<le> t + s" "t + s \<le> 970" "\<forall>n \<in> set ns. 0 \<le> n" "m * sum_list ns < 2 ^ 53"
  shows "map (float_mul (Finite (grid m s))) (map (\<lambda>n. Finite (grid n t)) ns)
         = map (\<lambda>n. Finite (grid (m * n) (s + t))) ns"
proof -
  have "float_mul (Finite (grid m s)) (Finite (grid n t)) = Finite (grid (m * n) (s + t))"
    if n: "n \<in> set ns" for n
  proof -
    have n0: "0 \<le> n" using assms(4) n by simp
    have "m * n \<le> m * sum_list ns"
      using elem_le_sum[OF assms(4) n] assms(1) by (intro mult_left_mono) simp_all
    moreover have "0 \<le> m * n" using n0 assms(1) by simp
    ultimately have "\<bar>m * n\<bar> < 2 ^ 53" using assms(5) by linarith
    from grid_round[OF this, of "s + t"] assms(2,3) show ?thesis
      by (simp add: grid_mult algebra_simps)
  qed
  then show ?thesis by simp
qed

text \<open>
  C7, as amended. Let the weights be non-negative integer multiples \<open>n \<times> 2\<^sup>t\<close> of one
  power of two and the constant be \<open>m \<times> 2\<^sup>s\<close> with \<open>m\<close> a positive integer, such that
  \<open>255 \<times> m\<close> times the sum of the \<open>n\<close> stays below \<open>2\<^sup>5\<^sup>3\<close> and the exponents \<open>t\<close> and
  \<open>t + s\<close> lie between -1074 and 970. Then every product and sum of the computation is
  exact, and the mix of the weights multiplied by the constant is the mix of the weights.
\<close>

theorem mix_weighted_dyadic_scaling:
  assumes "\<forall>n \<in> set ns. 0 \<le> n" "0 < m" "255 * m * sum_list ns < 2 ^ 53"
    and "- 1074 \<le> t" "t \<le> 970" "- 1074 \<le> t + s" "t + s \<le> 970"
  shows "mix_weighted colors (map (float_mul (Finite (grid m s))) (map (\<lambda>n. Finite (grid n t)) ns))
         = mix_weighted colors (map (\<lambda>n. Finite (grid n t)) ns)"
proof -
  have s0: "0 \<le> sum_list ns" using assms(1) by (intro sum_list_nonneg) simp
  have ms: "0 \<le> m * sum_list ns" using assms(2) s0 by simp
  then have b: "m * sum_list ns < 2 ^ 53" using assms(3) by linarith
  have "sum_list ns \<le> m * sum_list ns" using assms(2) s0 by (simp add: mult_le_cancel_right1)
  then have b1: "255 * 1 * sum_list ns < 2 ^ 53" using assms(3) by simp
  have st: "- 1074 \<le> s + t" "s + t \<le> 970" using assms(6,7) by simp_all
  have "mix_weighted colors (map (float_mul (Finite (grid m s))) (map (\<lambda>n. Finite (grid n t)) ns))
        = mix_weighted_int colors ns"
    unfolding scaled_weights[OF assms(2,6,7,1) b]
    by (rule mix_weighted_grid[OF assms(2) st assms(1,3)])
  moreover have "mix_weighted colors (map (\<lambda>n. Finite (grid n t)) ns) = mix_weighted_int colors ns"
    using mix_weighted_grid[OF zero_less_one assms(4,5,1) b1, of colors] by simp
  ultimately show ?thesis by simp
qed

theorem mix_weighted_dyadic_scaling_witness:
  "(0::int) \<le> 1 \<and> (0::int) \<le> 2 \<and> (0::int) \<le> 5 \<and> (0::int) < 3
   \<and> 255 * 3 * sum_list [1, 2, 5 :: int] < 2 ^ 53
   \<and> - 1074 \<le> (- 2 :: int) \<and> (- 2 :: int) \<le> 970
   \<and> - 1074 \<le> (- 2 + - 1 :: int) \<and> (- 2 + - 1 :: int) \<le> 970
   \<and> mix_weighted [''#000000'', ''#FFFFFF'', ''#102030'']
         (map (float_mul (Finite (grid 3 (- 1)))) (map (\<lambda>n. Finite (grid n (- 2))) [1, 2, 5]))
       = mix_weighted [''#000000'', ''#FFFFFF'', ''#102030'']
           (map (\<lambda>n. Finite (grid n (- 2))) [1, 2, 5])
   \<and> mix_weighted [''#000000'', ''#FFFFFF'', ''#102030'']
         (map (\<lambda>n. Finite (grid n (- 2))) [1, 2, 5]) = Inr ''#4A545E''"
proof -
  have v: "mix_weighted [''#000000'', ''#FFFFFF'', ''#102030'']
         (map (\<lambda>n. Finite (grid n (- 2))) [1, 2, 5]) = Inr ''#4A545E''"
    by code_simp
  show ?thesis
    using v mix_weighted_dyadic_scaling
      [of "[1, 2, 5]" 3 "- 2" "- 1" "[''#000000'', ''#FFFFFF'', ''#102030'']"]
    by simp
qed

text \<open>
  The claim as stated fails: with the colours \<^verbatim>\<open>#000000\<close> and \<^verbatim>\<open>#030303\<close> the weights 1 and 1
  give the mean 1.5, rounded to 2, while the same weights multiplied by 0.7 give
  1.4999999999999998, rounded to 1.
\<close>

theorem mix_weighted_scaled_by_seven_tenths:
  "float_gt0 (round_to_double (7 / 10))
   \<and> mix_weighted [''#000000'', ''#030303''] [Finite 1, Finite 1] = Inr ''#020202''
   \<and> mix_weighted [''#000000'', ''#030303'']
         (map (float_mul (round_to_double (7 / 10))) [Finite 1, Finite 1]) = Inr ''#010101''"
  by code_simp

section \<open>Properties of the unit-code parser\<close>

lemma upper_lower_char: "upper_char (lower_char c) = upper_char c"
  by (simp add: upper_char_def lower_char_def ascii_upper_def ascii_lower_def)

lemma upper_lower: "upper (lower s) = upper s"
  by (simp add: upper_def lower_def upper_lower_char)

lemma marker_upper:
  assumes "startswith (lower r) ''cortado_''"
  shows "upper (take 8 r) = ''CORTADO_''"
proof -
  have len: "length ''cortado_'' = 8" by simp
  from assms have "take 8 (lower r) = ''cortado_''" unfolding startswith_def len .
  then have "lower (take 8 r) = ''cortado_''" unfolding lower_def take_map .
  then have "upper (lower (take 8 r)) = upper ''cortado_''" by simp
  then show ?thesis
    unfolding upper_lower by (simp add: upper_def upper_char_def ascii_upper_def ascii_lower_def)
qed

lemma parse_sigla_idade: "fst (parse_sigla self s) = extract_idade_code s"
  by (simp add: parse_sigla_def Let_def case_prod_beta)

text \<open>
  C9. The code \<^verbatim>\<open>C_cortado_1\<close> is parsed into the age code \<^verbatim>\<open>C_CORTADO_\<close>, no Greek
  token, no stem, and the coarse group \<^verbatim>\<open>C_CORTADO_\<close>, whatever the stem length and the
  set of ignored tokens.
\<close>

theorem parse_sigla_C_cortado_1:
  "parse_sigla self ''C_cortado_1'' = (''C_CORTADO_'', [], [], ''C_CORTADO_'')"
proof -
  have e: "extract_idade_code ''C_cortado_1'' = ''C_CORTADO_''" by code_simp
  have t: "tokenize_rest ''C_cortado_1'' ''C_CORTADO_'' = [''1'']" by code_simp
  have g: "norm_greek ''1'' = None" by code_simp
  have l: "letters_stem self ''1'' = None"
    by (simp add: letters_stem_def strip_underscores_def is_digit_def ascii_digits_def)
  have s: "scan_tokens self [''1''] None None = (None, None)"
    by (simp add: g l truthy_def)
  show ?thesis
    unfolding parse_sigla_def e t s Let_def by (simp add: truthy_def or_empty_def)
qed

theorem parse_sigla_C_cortado_1_witness:
  "parse_sigla default_styler ''C_cortado_1'' = (''C_CORTADO_'', [], [], ''C_CORTADO_'')"
  using parse_sigla_C_cortado_1 [of default_styler] .

text \<open>
  C3, as amended. When the leading run of upper-case letters, digits and underscores ends
  in \<^verbatim>\<open>C_\<close> and what follows the run starts with \<^verbatim>\<open>cortado_\<close> in any case, the age token
  is the run followed by those eight characters in upper case, \<^verbatim>\<open>CORTADO_\<close>; when the run
  does not end in \<^verbatim>\<open>C_\<close> the age token is the run alone.
\<close>

theorem extract_idade_code_marker:
  "(endswith (takeWhile is_code_char s) ''C_''
      \<and> startswith (lower (dropWhile is_code_char s)) ''cortado_'' \<longrightarrow>
        extract_idade_code s = takeWhile is_code_char s @ upper (take 8 (dropWhile is_code_char s))
        \<and> upper (take 8 (dropWhile is_code_char s)) = ''CORTADO_''
        \<and> fst (parse_sigla self s) = takeWhile is_code_char s @ ''CORTADO_'')
   \<and> (\<not> endswith (takeWhile is_code_char s) ''C_'' \<longrightarrow>
        extract_idade_code s = takeWhile is_code_char s)"
proof -
  have d: "drop (length (takeWhile is_code_char s)) s = dropWhile is_code_char s"
    by (simp add: dropWhile_eq_drop)
  show ?thesis
    unfolding parse_sigla_idade using marker_upper[of "dropWhile is_code_char s"]
    by (simp add: extract_idade_code_def Let_def d)
qed

theorem extract_idade_code_marker_witness:
  "endswith (takeWhile is_code_char ''NP3C_cORTADO_xisto'') ''C_''
   \<and> startswith (lower (dropWhile is_code_char ''NP3C_cORTADO_xisto'')) ''cortado_''
   \<and> extract_idade_code ''NP3C_cORTADO_xisto'' = ''NP3C_CORTADO_''
   \<and> fst (parse_sigla default_styler ''NP3C_cORTADO_xisto'') = ''NP3C_CORTADO_''
   \<and> \<not> endswith (takeWhile is_code_char ''K2bgr_arenito'') ''C_''
   \<and> extract_idade_code ''K2bgr_arenito'' = ''K2''"
proof -
  have 1: "takeWhile is_code_char ''NP3C_cORTADO_xisto'' = ''NP3C_''" by code_simp
  have 2: "dropWhile is_code_char ''NP3C_cORTADO_xisto'' = ''cORTADO_xisto''" by code_simp
  have 3: "endswith ''NP3C_'' ''C_''" by code_simp
  have 4: "startswith (lower ''cORTADO_xisto'') ''cortado_''" by code_simp
  have 5: "takeWhile is_code_char ''K2bgr_arenito'' = ''K2''" by code_simp
  have 6: "\<not> endswith ''K2'' ''C_''" by code_simp
  show ?thesis
    using extract_idade_code_marker [of "''NP3C_cORTADO_xisto''" default_styler]
      extract_idade_code_marker [of "''K2bgr_arenito''" default_styler]
    unfolding 1 2 5 using 3 4 6 by simp
qed

text \<open>
  The claim as stated fails for a run that ends in another letter and an underscore: the
  run of \<^verbatim>\<open>A_cortado_1\<close> is \<^verbatim>\<open>A_\<close>, the rest starts with \<^verbatim>\<open>cortado_\<close>, and the age token
  stays \<^verbatim>\<open>A_\<close>.
\<close>

theorem extract_idade_code_other_letter:
  "takeWhile is_code_char ''A_cortado_1'' = ''A_''
   \<and> dropWhile is_code_char ''A_cortado_1'' = ''cortado_1''
   \<and> startswith (lower ''cortado_1'') ''cortado_''
   \<and> extract_idade_code ''A_cortado_1'' = ''A_''
   \<and> ''A_'' \<noteq> ''A_CORTADO_''"
  by code_simp

section \<open>Properties of the age domino\<close>

lemma era_names:
  "Pre_cambriano \<noteq> []" "Paleozoico \<noteq> []" "Mesozoico \<noteq> []" "Cenozoico \<noteq> []"
  by (simp_all add: Pre_cambriano_def Paleozoico_def Mesozoico_def Cenozoico_def)

lemma simple_range:
  "macro_from_idade_code_simple ic \<in> set macro_eras \<or> macro_from_idade_code_simple ic = []"
  by (simp add: macro_from_idade_code_simple_def macro_eras_def Let_def)

lemma macro_range: "macro_era_of ed er ic \<in> set macro_eras \<or> macro_era_of ed er ic = []"
  unfolding macro_era_of_def macro_eras_def by (simp split: if_splits)

lemma macro_eras_nonempty: "x \<in> set macro_eras \<Longrightarrow> x \<noteq> []"
  using era_names by (auto simp: macro_eras_def)

lemma domino_rule:
  assumes "me \<in> set macro_eras \<or> me = []"
  shows "domino_ok_of ic me =
     (if macro_from_idade_code_simple ic = [] \<or> macro_from_idade_code_simple ic = me \<or> me = []
      then 1 else 0)"
proof (cases "me \<in> set macro_eras")
  case True
  then have "me \<noteq> []" by (rule macro_eras_nonempty)
  with True show ?thesis by (auto simp: domino_ok_of_def allowed_set_def Let_def)
next
  case False
  with assms have "me = []" by simp
  with False simple_range[of ic] show ?thesis
    by (auto simp: domino_ok_of_def allowed_set_def Let_def)
qed

text \<open>
  C1, as amended. For every feature, \<open>domino_ok\<close> is 1 when the simple macro-era of the
  age code is empty, or equals the resolved macro-era, or the resolved macro-era is itself
  empty; it is 0 otherwise. The resolved macro-era is one of the four eras or empty.
\<close>

theorem domino_ok_rule:
  assumes "r = classify self unaccent_upper enforce_mode f"
  shows "domino_ok r =
           (if sigla_era r = [] \<or> sigla_era r = macro_era r \<or> macro_era r = [] then 1 else 0)
         \<and> sigla_era r = macro_from_idade_code_simple (idade_code r)
         \<and> (macro_era r \<in> set macro_eras \<or> macro_era r = [])"
  unfolding assms classify_def Let_def
  using macro_range by (simp add: case_prod_beta domino_rule[OF macro_range])

theorem domino_ok_rule_witness:
  "domino_ok (classify default_styler upper ''flag''
      \<lparr>sigla = ''NP3alfa'', eon_min = Some ''Fanerozoico'', eon_max = None,
       era_min = Some ''cenozoico'', era_max = Some ''Cenozoico ''\<rparr>) = 0
   \<and> sigla_era (classify default_styler upper ''flag''
      \<lparr>sigla = ''NP3alfa'', eon_min = Some ''Fanerozoico'', eon_max = None,
       era_min = Some ''cenozoico'', era_max = Some ''Cenozoico ''\<rparr>) = Pre_cambriano
   \<and> macro_era (classify default_styler upper ''flag''
      \<lparr>sigla = ''NP3alfa'', eon_min = Some ''Fanerozoico'', eon_max = None,
       era_min = Some ''cenozoico'', era_max = Some ''Cenozoico ''\<rparr>) = Cenozoico"
proof -
  define r where "r = classify default_styler upper ''flag''
      \<lparr>sigla = ''NP3alfa'', eon_min = Some ''Fanerozoico'', eon_max = None,
       era_min = Some ''cenozoico'', era_max = Some ''Cenozoico ''\<rparr>"
  have s: "sigla_era r = Pre_cambriano" unfolding r_def by code_simp
  have m: "macro_era r = Cenozoico" unfolding r_def by code_simp
  have n: "Pre_cambriano \<noteq> Cenozoico" "Pre_cambriano \<noteq> []" "Cenozoico \<noteq> []" by code_simp+
  from domino_ok_rule [OF r_def] have "domino_ok r = 0" unfolding s m using n by simp
  with s m show ?thesis unfolding r_def by simp
qed

text \<open>
  The claim as stated fails when the eon and era fields resolve no macro-era: the code
  \<^verbatim>\<open>K\<close> means Mesozoic, the resolved macro-era is empty, and \<open>domino_ok\<close> is 1.
\<close>

theorem domino_ok_unresolved_macro:
  "domino_ok (classify default_styler upper ''flag''
      \<lparr>sigla = ''K'', eon_min = None, eon_max = None, era_min = None, era_max = None\<rparr>) = 1
   \<and> sigla_era (classify default_styler upper ''flag''
      \<lparr>sigla = ''K'', eon_min = None, eon_max = None, era_min = None, era_max = None\<rparr>)
       = Mesozoico
   \<and> macro_era (classify default_styler upper ''flag''
      \<lparr>sigla = ''K'', eon_min = None, eon_max = None, era_min = None, era_max = None\<rparr>) = []
   \<and> Mesozoico \<noteq> []"
  by code_simp

section \<open>Properties of the scale rounding\<close>

lemma pow10_pos: "0 < pow10 k" by (simp add: pow10_def)
lemma pow10_nat: "pow10 (int d) = 10 ^ d" by (simp add: pow10_def)
lemma pow10_neg: "pow10 (- int d) = 1 / 10 ^ d" by (simp add: pow10_def power_int_minus_divide)
lemma pow10_Suc: "pow10 (k + 1) = 10 * pow10 k" by (simp add: pow10_def power_int_add_1)
lemma pow10_mono: "j \<le> k \<Longrightarrow> pow10 j \<le> pow10 k" by (simp add: pow10_def power_int_increasing)

lemma ilog10_bounds:
  "1 \<le> m \<Longrightarrow> 10 ^ ilog10 m \<le> m \<and> m < 10 ^ Suc (ilog10 m)"
proof (induction m rule: ilog10.induct)
  case (1 m)
  show ?case
  proof (cases "m < 10")
    case True
    with "1.prems" show ?thesis by simp
  next
    case False
    then have q: "1 \<le> m div 10" by simp
    from "1.IH"[OF False q]
    have ih: "10 ^ ilog10 (m div 10) \<le> m div 10" "m div 10 < 10 ^ Suc (ilog10 (m div 10))"
      by simp_all
    have e: "ilog10 m = Suc (ilog10 (m div 10))" using False by simp
    have "10 * (m div 10) \<le> m" "m < 10 * (m div 10 + 1)" by simp_all
    with ih show ?thesis unfolding e by simp
  qed
qed

lemma digits_bounds:
  assumes "1 \<le> (x::rat)"
  shows "10 ^ ilog10 \<lfloor>x\<rfloor> \<le> x \<and> x < 10 ^ Suc (ilog10 \<lfloor>x\<rfloor>)"
proof -
  define m where "m = \<lfloor>x\<rfloor>"
  have m1: "1 \<le> m" using assms unfolding m_def by simp
  have mx: "of_int m \<le> x" "x < of_int m + 1" using floor_correct[of x] unfolding m_def by simp_all
  from ilog10_bounds[OF m1] have b: "10 ^ ilog10 m \<le> m" "m + 1 \<le> 10 ^ Suc (ilog10 m)" by simp_all
  from b(1) have "(of_int (10 ^ ilog10 m) :: rat) \<le> of_int m" by (simp only: of_int_le_iff)
  then have 1: "(10::rat) ^ ilog10 m \<le> of_int m" by simp
  from b(2) have "(of_int (m + 1) :: rat) \<le> of_int (10 ^ Suc (ilog10 m))" by (simp only: of_int_le_iff)
  then have 2: "of_int m + 1 \<le> (10::rat) ^ Suc (ilog10 m)" by simp
  show ?thesis using 1 2 mx unfolding m_def[symmetric] by linarith
qed

lemma floor_log10_bounds:
  assumes "0 < n"
  shows "pow10 (floor_log10 n) \<le> n \<and> n < pow10 (floor_log10 n + 1)"
proof (cases "1 \<le> n")
  case True
  define d where "d = ilog10 \<lfloor>n\<rfloor>"
  have k: "floor_log10 n = int d" using True by (simp add: floor_log10_def d_def)
  have k1: "floor_log10 n + 1 = int (Suc d)" using k by simp
  have p1: "pow10 (floor_log10 n) = 10 ^ d" unfolding k pow10_nat ..
  have p2: "pow10 (floor_log10 n + 1) = 10 ^ Suc d" unfolding k1 pow10_nat ..
  show ?thesis unfolding p1 p2 using digits_bounds[OF True] unfolding d_def by simp
next
  case False
  define m where "m = 1 / n"
  have m1: "1 \<le> m" using False assms unfolding m_def by simp
  define d where "d = ilog10 \<lfloor>m\<rfloor>"
  have b: "10 ^ d \<le> m" "m < 10 ^ Suc d" using digits_bounds[OF m1] unfolding d_def by simp_all
  have n: "n = 1 / m" unfolding m_def by simp
  have mpos: "0 < m" using m1 by simp
  have fl: "floor_log10 n = (if m = 10 ^ d then - int d else - int d - 1)"
    using False unfolding floor_log10_def m_def d_def by (simp add: Let_def)
  show ?thesis
  proof (cases "m = 10 ^ d")
    case True
    have k: "floor_log10 n = - int d" unfolding fl using True by simp
    have "pow10 (- int d) = n" unfolding pow10_neg n True ..
    then have p: "pow10 (floor_log10 n) = n" unfolding k .
    show ?thesis unfolding pow10_Suc p using assms by simp
  next
    case neq: False
    have k: "floor_log10 n = - int (Suc d)" unfolding fl using neq by simp
    have k1: "floor_log10 n + 1 = - int d" using k by simp
    have lt: "10 ^ d < m" using b(1) neq by simp
    have 1: "1 / 10 ^ Suc d \<le> 1 / m" using b(2) mpos by (intro divide_left_mono) simp_all
    have 2: "1 / m < 1 / 10 ^ d" using lt by (intro divide_strict_left_mono) (simp_all add: mpos)
    have p1: "pow10 (floor_log10 n) = 1 / 10 ^ Suc d" unfolding k pow10_neg ..
    have p2: "pow10 (floor_log10 n + 1) = 1 / 10 ^ d" unfolding k1 pow10_neg ..
    show ?thesis unfolding p1 p2 using 1 2 n by simp
  qed
qed

lemma ceil_step:
  assumes "0 < n"
  defines "P \<equiv> pow10 (floor_log10 n)"
  defines "s \<equiv> (if n \<le> P then 1 else if n \<le> 2 * P then 2 else if n \<le> 5 / 2 * P then 5 / 2
                   else if n \<le> 5 * P then 5 else (10::rat))"
  shows "round_nice n ''ceil'' = \<lceil>s * P\<rceil>"
proof -
  have "n < 10 * P" using floor_log10_bounds[OF assms(1)] unfolding P_def pow10_Suc by simp
  then show ?thesis using assms(1)
    unfolding round_nice_def Let_def steps_def P_def[symmetric] s_def
    by simp
qed

lemma nice_below:
  assumes "nice_number u" "u = t * pow10 j" "t \<in> {1, 2, 5 / 2, 5}" "j < k"
  shows "u < pow10 k"
proof -
  have "pow10 j \<le> pow10 (k - 1)" using assms(4) by (intro pow10_mono) simp
  moreover have "pow10 k = 10 * pow10 (k - 1)" using pow10_Suc[of "k - 1"] by simp
  moreover have "0 < pow10 (k - 1)" by (rule pow10_pos)
  moreover have "t \<le> 5" using assms(3) by auto
  moreover have "0 < pow10 j" by (rule pow10_pos)
  ultimately have "t * pow10 j \<le> 5 * pow10 (k - 1)" by (intro mult_mono) simp_all
  then show ?thesis using \<open>pow10 k = 10 * pow10 (k - 1)\<close> \<open>0 < pow10 (k - 1)\<close> assms(2) by simp
qed

text \<open>
  C5, as amended. For a positive exact denominator \<open>n\<close> the rounding in mode \<^verbatim>\<open>ceil\<close>
  returns the integer ceiling of the smallest nice number not below \<open>n\<close>; the result is
  never smaller than \<open>n\<close>, and from \<open>n = 10\<close> on it is that nice number itself.
\<close>

theorem round_nice_ceil:
  assumes "0 < n"
  shows "\<exists>v. least_nice_geq n v \<and> round_nice n ''ceil'' = \<lceil>v\<rceil>
           \<and> n \<le> of_int (round_nice n ''ceil'')
           \<and> (10 \<le> n \<longrightarrow> of_int (round_nice n ''ceil'') = v)"
proof -
  define k where "k = floor_log10 n"
  define P where "P = pow10 k"
  define s where "s = (if n \<le> P then 1 else if n \<le> 2 * P then 2 else if n \<le> 5 / 2 * P then 5 / 2
                   else if n \<le> 5 * P then 5 else (10::rat))"
  define v where "v = s * P"
  have Ppos: "0 < P" unfolding P_def by (rule pow10_pos)
  have bounds: "P \<le> n" "n < 10 * P"
    using floor_log10_bounds[OF assms] unfolding P_def k_def pow10_Suc by simp_all
  have r: "round_nice n ''ceil'' = \<lceil>v\<rceil>"
    unfolding v_def s_def P_def k_def by (rule ceil_step[OF assms])
  have nv: "n \<le> v" unfolding v_def s_def using bounds by (auto split: if_splits)
  have s10: "s \<le> 10" "1 \<le> s" unfolding s_def by auto
  have nice: "nice_number v"
  proof (cases "s = 10")
    case True
    then have "v = 1 * pow10 (k + 1)" unfolding v_def P_def pow10_Suc by simp
    then show ?thesis unfolding nice_number_def by blast
  next
    case False
    then have "s \<in> {1, 2, 5 / 2, 5}" unfolding s_def by (auto split: if_splits)
    then show ?thesis unfolding nice_number_def v_def P_def by blast
  qed
  have least: "v \<le> u" if u: "nice_number u" "n \<le> u" for u
  proof -
    from u(1) obtain t j where t: "t \<in> {1, 2, 5 / 2, 5}" and uj: "u = t * pow10 j"
      unfolding nice_number_def by blast
    have "\<not> j < k"
    proof
      assume "j < k"
      from nice_below[OF u(1) uj t this] have "u < P" unfolding P_def .
      with bounds(1) u(2) show False by simp
    qed
    then consider "j = k" | "k + 1 \<le> j" by linarith
    then show ?thesis
    proof cases
      case 1
      then have "n \<le> t * P" using u(2) uj unfolding P_def by simp
      note jk = 1
      from t consider "t = 1" | "t = 2" | "t = 5 / 2" | "t = 5" by blast
      then have "s \<le> t"
      proof cases
        case 1
        with \<open>n \<le> t * P\<close> have "n \<le> P" by simp
        then show ?thesis unfolding s_def 1 by simp
      next
        case 2
        with \<open>n \<le> t * P\<close> have "n \<le> 2 * P" by simp
        then show ?thesis unfolding s_def 2 by simp
      next
        case 3
        with \<open>n \<le> t * P\<close> have "n \<le> 5 / 2 * P" by simp
        then show ?thesis unfolding s_def 3 by simp
      next
        case 4
        with \<open>n \<le> t * P\<close> have "n \<le> 5 * P" by simp
        then show ?thesis unfolding s_def 4 by simp
      qed
      then show ?thesis unfolding v_def uj jk P_def[symmetric] using Ppos by simp
    next
      case 2
      then have "pow10 (k + 1) \<le> pow10 j" by (rule pow10_mono)
      then have "10 * P \<le> pow10 j" unfolding pow10_Suc P_def .
      moreover have "pow10 j \<le> t * pow10 j" using t pow10_pos[of j] by auto
      moreover have "s * P \<le> 10 * P" using s10 Ppos by simp
      ultimately show ?thesis unfolding v_def uj by linarith
    qed
  qed
  have ge: "n \<le> of_int (round_nice n ''ceil'')" unfolding r using nv le_of_int_ceiling[of v] by linarith
  have int: "of_int (round_nice n ''ceil'') = v" if "10 \<le> n"
  proof -
    have "1 \<le> k"
    proof (rule ccontr)
      assume "\<not> 1 \<le> k"
      then have "k + 1 \<le> 1" by simp
      then have "pow10 (k + 1) \<le> pow10 1" by (rule pow10_mono)
      then have "10 * P \<le> 10" unfolding pow10_Suc P_def by (simp add: pow10_def)
      with bounds(2) that show False by simp
    qed
    then obtain d where d: "k = int d + 1" by (metis add.commute zle_iff_zadd)
    have "P = 10 * 10 ^ d" unfolding P_def d pow10_Suc pow10_nat ..
    then have "v = of_int (\<lfloor>2 * s\<rfloor> * 5 * 10 ^ d)" unfolding v_def s_def by (auto split: if_splits)
    then show ?thesis unfolding r by (metis ceiling_of_int)
  qed
  show ?thesis unfolding least_nice_geq_def using nice nv least r ge int by blast
qed

theorem round_nice_ceil_witness:
  "(0::rat) < 168750 \<and> round_nice 168750 ''ceil'' = 200000
   \<and> (\<exists>v. least_nice_geq 168750 v \<and> round_nice 168750 ''ceil'' = \<lceil>v\<rceil>
          \<and> (168750::rat) \<le> of_int (round_nice 168750 ''ceil'')
          \<and> ((10::rat) \<le> 168750 \<longrightarrow> of_int (round_nice 168750 ''ceil'') = v))"
proof -
  have e: "round_nice 168750 ''ceil'' = 200000" by code_simp
  have p: "(0::rat) < 168750" by simp
  from round_nice_ceil [OF p] obtain v
    where v: "least_nice_geq 168750 v \<and> round_nice 168750 ''ceil'' = \<lceil>v\<rceil>
          \<and> (168750::rat) \<le> of_int (round_nice 168750 ''ceil'')
          \<and> ((10::rat) \<le> 168750 \<longrightarrow> of_int (round_nice 168750 ''ceil'') = v)" ..
  show ?thesis
    by (rule conjI[OF p], rule conjI[OF e], rule exI[of _ v], rule v)
qed

text \<open>
  The claim as stated can fail below ten: for 2.3 the smallest nice number not below it
  is 2.5, and the result is the integer 3.
\<close>

theorem round_nice_ceil_not_in_sequence:
  "round_nice (23 / 10) ''ceil'' = 3 \<and> (5 / 2 :: rat) = 5 / 2 * pow10 0
   \<and> (23 / 10 :: rat) \<le> 5 / 2 \<and> (5 / 2 :: rat) < 3"
  by code_simp

section \<open>Properties of the consolidation threshold\<close>

text \<open>
  C8. When the consolidation reaches its partition, the threshold is the scale
  denominator \<open>N\<close> returned by the scale computation, taken to metres on the ground by the
  factor \<open>10\<^sup>-\<^sup>3\<close>, squared, times the minimum area in square millimetres that the
  method received.
\<close>

theorem cull_threshold:
  "cull_small_parts_by_scale self env gdf min_area_mm2 = Inr p \<longrightarrow>
     (\<exists>strat. width_to_scale self env True gdf = Inr (scale_N p, strat))
     \<and> area_thresh_m2 p = (of_int (scale_N p) * (1 / 1000)) ^ 2 * min_area_mm2
     \<and> area_thresh_m2 p = (of_int (scale_N p)) ^ 2 * min_area_mm2 / 1000000"
  by (auto simp: cull_small_parts_by_scale_def Let_def power2_eq_square
      split: sum.splits option.splits if_splits prod.splits)

theorem cull_threshold_witness:
  "cull_small_parts_by_scale sample_config failing_gis (Some layer_projected) 1
     = Inr \<lparr>scale_N = 200000, area_thresh_m2 = 40000, small_idx = [1, 2], big_idx = [0]\<rparr>
   \<and> cull_small_parts_by_scale sample_config failing_gis (Some layer_projected) (1 / 4)
     = Inr \<lparr>scale_N = 200000, area_thresh_m2 = 10000, small_idx = [1], big_idx = [0, 2]\<rparr>
   \<and> width_to_scale sample_config failing_gis True (Some layer_projected)
     = Inr (200000, Projected_native)
   \<and> (40000::rat) = (of_int 200000 * (1 / 1000)) ^ 2 * 1
   \<and> (10000::rat) = (of_int 200000 * (1 / 1000)) ^ 2 * (1 / 4)"
proof -
  have c: "cull_small_parts_by_scale sample_config failing_gis (Some layer_projected) 1
     = Inr \<lparr>scale_N = 200000, area_thresh_m2 = 40000, small_idx = [1, 2], big_idx = [0]\<rparr>"
    by code_simp
  have d: "cull_small_parts_by_scale sample_config failing_gis (Some layer_projected) (1 / 4)
     = Inr \<lparr>scale_N = 200000, area_thresh_m2 = 10000, small_idx = [1], big_idx = [0, 2]\<rparr>"
    by code_simp
  have w: "width_to_scale sample_config failing_gis True (Some layer_projected)
     = Inr (200000, Projected_native)"
    by code_simp
  show ?thesis
    using c d w
      cull_threshold [of sample_config failing_gis "Some layer_projected" 1
        "\<lparr>scale_N = 200000, area_thresh_m2 = 40000, small_idx = [1, 2], big_idx = [0]\<rparr>"]
      cull_threshold [of sample_config failing_gis "Some layer_projected" "1 / 4"
        "\<lparr>scale_N = 200000, area_thresh_m2 = 10000, small_idx = [1], big_idx = [0, 2]\<rparr>"]
    by simp
qed








section \<open>Properties of the collision rounds\<close>

lemma set_grp_color_keys: "map fst (set_grp_color cm g c) = map fst cm"
  by (induction cm g c rule: set_grp_color.induct) auto

lemma set_grp_color_other: "k \<noteq> g \<Longrightarrow> map_of (set_grp_color cm g c) k = map_of cm k"
  by (induction cm g c rule: set_grp_color.induct) auto

lemma for_groups_frame:
  assumes "\<And>cm x g c. body cm x = Inr (g, c) \<Longrightarrow> g = tgt x"
    and "for_groups body xs cm = Inr cm'"
  shows "map fst cm' = map fst cm \<and> (\<forall>k. k \<notin> tgt ` set xs \<longrightarrow> map_of cm' k = map_of cm k)"
  using assms(2)
proof (induction xs arbitrary: cm)
  case Nil
  then show ?case by simp
next
  case (Cons x xs)
  from Cons.prems obtain g c where b: "body cm x = Inr (g, c)"
    and r: "for_groups body xs (set_grp_color cm g c) = Inr cm'"
    by (auto split: sum.splits)
  from assms(1)[OF b] have g: "g = tgt x" .
  from Cons.IH[OF r] show ?case
    by (auto simp: set_grp_color_keys set_grp_color_other g)
qed

lemma round_A_body_target: "round_A_body cm x = Inr (g, c) \<Longrightarrow> g = x"
  by (auto simp: round_A_body_def Let_def split: sum.splits if_splits)

lemma round_B_body_target: "round_B_body cm x = Inr (g, c) \<Longrightarrow> g = x"
  by (auto simp: round_B_body_def Let_def split: sum.splits if_splits)

lemma jitter_body_target: "jitter_body hls tries cm x = Inr (g, c) \<Longrightarrow> g = snd x"
  by (auto simp: jitter_body_def split: sum.splits prod.splits)

lemma jitter_targets:
  "snd ` set (concat (map (\<lambda>group_list. enumerate 0 (sort group_list)) dups))
     = set (concat (dups :: 'a::linorder list list))"
proof -
  have h: "snd ` set (enumerate 0 (sort gl)) = set gl" for gl :: "'a::linorder list"
    by (metis list.set_map map_snd_enumerate set_sort)
  show ?thesis by (induction dups) (simp_all add: image_Un h)
qed

lemma dup_sets_long: "v \<in> set (dup_sets cm) \<Longrightarrow> 1 < length v"
  by (auto simp: dup_sets_def)

lemma no_collision: "collision_count cm = 0 \<Longrightarrow> dup_sets cm = []"
proof (rule ccontr)
  assume c: "collision_count cm = 0" and n: "dup_sets cm \<noteq> []"
  then obtain v where v: "v \<in> set (dup_sets cm)" by (cases "dup_sets cm") auto
  from c have "concat (dup_sets cm) = []" by (simp add: collision_count_def)
  with v have "v = []" by auto
  with dup_sets_long[OF v] show False by simp
qed

text \<open>
  C2, as amended. Round A, round B and each pass of the jitter keep the groups of the map
  and rewrite only groups that are in a collision set when the round starts: every other
  group keeps its entry. A map without collisions goes through the three rounds unchanged.
  The number of colliding groups itself may grow.
\<close>

theorem rounds_touch_collisions_only:
  "(round_A cm = Inr cmA \<longrightarrow>
      map fst cmA = map fst cm
      \<and> (\<forall>k. k \<notin> set (concat (dup_sets cm)) \<longrightarrow> map_of cmA k = map_of cm k))
   \<and> (round_B cm = Inr cmB \<longrightarrow>
      map fst cmB = map fst cm
      \<and> (\<forall>k. k \<notin> set (concat (dup_sets cm)) \<longrightarrow> map_of cmB k = map_of cm k))
   \<and> (jitter_pass hls tries (dup_sets cm) cm = Inr cmC \<longrightarrow>
      map fst cmC = map fst cm
      \<and> (\<forall>k. k \<notin> set (concat (dup_sets cm)) \<longrightarrow> map_of cmC k = map_of cm k))
   \<and> (collision_count cm = 0 \<longrightarrow>
      round_A cm = Inr cm \<and> round_B cm = Inr cm \<and> round_C hls 0 cm = Inr cm)"
proof (intro conjI impI)
  assume "round_A cm = Inr cmA"
  from for_groups_frame[of round_A_body "\<lambda>x. x", OF round_A_body_target
      this[unfolded round_A_def]]
  show "map fst cmA = map fst cm"
    "\<forall>k. k \<notin> set (concat (dup_sets cm)) \<longrightarrow> map_of cmA k = map_of cm k"
    by simp_all
next
  assume "round_B cm = Inr cmB"
  from for_groups_frame[of round_B_body "\<lambda>x. x", OF round_B_body_target
      this[unfolded round_B_def]]
  show "map fst cmB = map fst cm"
    "\<forall>k. k \<notin> set (concat (dup_sets cm)) \<longrightarrow> map_of cmB k = map_of cm k"
    by simp_all
next
  assume "jitter_pass hls tries (dup_sets cm) cm = Inr cmC"
  from for_groups_frame[of "jitter_body hls tries" snd, OF jitter_body_target
      this[unfolded jitter_pass_def]]
  show "map fst cmC = map fst cm"
    "\<forall>k. k \<notin> set (concat (dup_sets cm)) \<longrightarrow> map_of cmC k = map_of cm k"
    unfolding jitter_targets by simp_all
next
  assume "collision_count cm = 0"
  then have d: "dup_sets cm = []" by (rule no_collision)
  show "round_A cm = Inr cm" "round_B cm = Inr cm" "round_C hls 0 cm = Inr cm"
    by (simp_all add: round_A_def round_B_def d)
qed

theorem rounds_touch_collisions_only_witness:
  "round_A colliding_map = Inr colliding_map_after_A
   \<and> round_B colliding_map = Inr colliding_map_after_A
   \<and> jitter_pass (\<lambda>c k dh dl. Inr c) 0 (dup_sets colliding_map) colliding_map = Inr colliding_map
   \<and> map fst colliding_map_after_A = map fst colliding_map
   \<and> ''g3'' \<notin> set (concat (dup_sets colliding_map))
   \<and> map_of colliding_map_after_A ''g3'' = map_of colliding_map ''g3''
   \<and> collision_count [hd colliding_map] = 0
   \<and> round_A [hd colliding_map] = Inr [hd colliding_map]
   \<and> round_B [hd colliding_map] = Inr [hd colliding_map]
   \<and> round_C (\<lambda>c k dh dl. Inr c) 0 [hd colliding_map] = Inr [hd colliding_map]"
proof -
  have a: "round_A colliding_map = Inr colliding_map_after_A" by code_simp
  have b: "round_B colliding_map = Inr colliding_map_after_A" by code_simp
  have c: "jitter_pass (\<lambda>c k dh dl. Inr c) 0 (dup_sets colliding_map) colliding_map
             = Inr colliding_map"
    by code_simp
  have g: "''g3'' \<notin> set (concat (dup_sets colliding_map))" by code_simp
  have z: "collision_count [hd colliding_map] = 0" by code_simp
  show ?thesis
    using a b c g z
      rounds_touch_collisions_only [of colliding_map colliding_map_after_A
        colliding_map_after_A "\<lambda>c k dh dl. Inr c" 0 colliding_map]
      rounds_touch_collisions_only [of "[hd colliding_map]" colliding_map_after_A
        colliding_map_after_A "\<lambda>c k dh dl. Inr c" 0 colliding_map]
    by simp
qed

text \<open>
  The claim as stated fails in round A: two groups share a colour, both move to the colour
  of their lithology mix, which a third group already has; two colliding groups become
  three.
\<close>

theorem round_A_adds_a_collision:
  "collision_count colliding_map = 2 \<and> round_A colliding_map = Inr colliding_map_after_A
   \<and> collision_count colliding_map_after_A = 3"
  by code_simp

end
